theory Spec2Isabelle
  imports Complex_Main
begin

section \<open>Number model\<close>

text \<open>
  The repository computes with IEEE doubles.  This development reads every Python
  float as the real number it denotes: a decimal literal is the exact decimal
  fraction, \<open>+\<close>, \<open>-\<close>, \<open>*\<close>, \<open>/\<close> are the field operations, \<open>numpy.sqrt\<close>,
  \<open>numpy.cos\<close>, \<open>numpy.arccos\<close> and \<open>numpy.pi\<close> are the real functions and
  constant.  Rounding is not modelled.  Two things that a real number does not
  show are modelled where the code depends on them: the non-finite result of an
  array divided by \<open>0.0\<close> (\<open>npfloat\<close>), and the kind, int or float, of the
  numbers that enter the polynomials of the Newton--Cotes weights (\<open>pynum\<close>).
\<close>

section \<open>Errors\<close>

datatype error =
    ValueError string
  | ZeroDivisionError
  | ShapeMismatch

section \<open>Tetrahedron schemes: \<open>quadrature/tetrahedron.py\<close>\<close>

subsection \<open>Data\<close>

text \<open>A row of the \<open>bary\<close> array (four barycentric coordinates) and a row of
  \<open>scheme.points\<close> (three coordinates).\<close>

type_synonym bary = "real \<times> real \<times> real \<times> real"
type_synonym point3 = "real \<times> real \<times> real"

record scheme =
  weights :: "real list"
  points :: "point3 list"
  degree :: nat

text \<open>\<open>numpy.ones(k)\<close> and the product of a scalar with an array.\<close>

definition ones :: "nat \<Rightarrow> real list" where
  "ones k = replicate k 1"

definition scal :: "real \<Rightarrow> real list \<Rightarrow> real list" where
  "scal c xs = map (\<lambda>x. c * x) xs"

text \<open>The column selections \<open>bary[:, 1:]\<close> and \<open>bary[:, [1, 2, 3]]\<close>; on rows of
  four entries they are the same.\<close>

fun cols123 :: "bary \<Rightarrow> point3" where
  "cols123 (b0, b1, b2, b3) = (b1, b2, b3)"


subsection \<open>Orbit generators\<close>

definition s4 :: "bary list" where
  "s4 = [(0.25, 0.25, 0.25, 0.25)]"

definition s31 :: "real \<Rightarrow> bary list" where
  "s31 a = (let b = 1 - 3 * a in
     [(a, a, a, b),
      (a, a, b, a),
      (a, b, a, a),
      (b, a, a, a)])"

definition s22 :: "real \<Rightarrow> bary list" where
  "s22 a = (let b = 0.5 - a in
     [(a, a, b, b),
      (a, b, a, b),
      (b, a, a, b),
      (a, b, b, a),
      (b, a, b, a),
      (b, b, a, a)])"

definition s211 :: "real \<Rightarrow> real \<Rightarrow> bary list" where
  "s211 a b = (let c = 1 - 2 * a - b in
     [(a, a, b, c),
      (a, b, a, c),
      (b, a, a, c),
      (a, b, c, a),
      (b, a, c, a),
      (b, c, a, a),
      (a, a, c, b),
      (a, c, a, b),
      (c, a, a, b),
      (a, c, b, a),
      (c, a, b, a),
      (c, b, a, a)])"



text \<open>\<open>LiuVinokur._r_alpha\<close>, \<open>_r_beta\<close> and \<open>_r_gamma_delta\<close>.\<close>

definition r_alpha :: "real \<Rightarrow> bary list" where
  "r_alpha alpha = (let a = (1 + 3 * alpha) / 4; b = (1 - alpha) / 4 in
     [(a, b, b, b),
      (b, a, b, b),
      (b, b, a, b),
      (b, b, b, a)])"

definition r_beta :: "real \<Rightarrow> bary list" where
  "r_beta beta = (let a = (1 + 2 * beta) / 4; b = (1 - 2 * beta) / 4 in
     [(a, a, b, b),
      (a, b, a, b),
      (b, a, a, b),
      (a, b, b, a),
      (b, a, b, a),
      (b, b, a, a)])"

definition r_gamma_delta :: "real \<Rightarrow> real \<Rightarrow> bary list" where
  "r_gamma_delta gamma delta =
     (let b = (1 + 3 * gamma - delta) / 4;
          c = (1 + 3 * delta - gamma) / 4;
          a = (1 - gamma - delta) / 4 in
     [(a, a, b, c),
      (a, b, a, c),
      (b, a, a, c),
      (a, b, c, a),
      (b, a, c, a),
      (b, c, a, a),
      (a, a, c, b),
      (a, c, a, b),
      (c, a, a, b),
      (a, c, b, a),
      (c, a, b, a),
      (c, b, a, a)])"

subsection \<open>Scheme constructors\<close>

text \<open>
  Every constructor is an \<open>if\<close>/\<open>elif\<close> chain on \<open>index\<close> that sets
  \<open>self.weights\<close>, \<open>bary\<close> and \<open>self.degree\<close>, ends in
  \<open>raise ValueError(...)\<close>, and after the chain sets \<open>self.points\<close> to the last
  three columns of \<open>bary\<close>.  Each branch is a definition \<open>Family_index\<close> of the
  triple (weights, bary, degree); \<open>Family_table\<close> is the chain, \<open>assemble\<close> the
  common tail.
\<close>

definition assemble :: "(real list \<times> bary list \<times> nat) option \<Rightarrow> string \<Rightarrow> error + scheme" where
  "assemble branch msg =
     (case branch of
        None \<Rightarrow> Inl (ValueError msg)
      | Some (w, bary, d) \<Rightarrow> Inr \<lparr>weights = w, points = map cols123 bary, degree = d\<rparr>)"

subsubsection \<open>HammerMarloweStroud\<close>






subsubsection \<open>Yu\<close>








subsubsection \<open>Keast\<close>

definition Keast_0 :: "real list \<times> bary list \<times> nat" where
  "Keast_0 =
     ([1],
      s4,
      1)"

definition Keast_1 :: "real list \<times> bary list \<times> nat" where
  "Keast_1 =
     (scal 0.25 (ones 4),
      s31 0.1381966011250105,
      2)"

definition Keast_2 :: "real list \<times> bary list \<times> nat" where
  "Keast_2 =
     (concat [scal (- 0.8) (ones 1), scal 0.45 (ones 4)],
      concat [s4, s31 (1 / 6)],
      3)"

definition Keast_3 :: "real list \<times> bary list \<times> nat" where
  "Keast_3 =
     (concat [scal 0.2177650698804054 (ones 4), scal 0.0214899534130631 (ones 6)],
      concat [s31 0.1438564719343852, s22 0.5],
      3)"

definition Keast_4 :: "real list \<times> bary list \<times> nat" where
  "Keast_4 =
     (concat [scal ((- 148) / 1875) (ones 1), scal (343 / 7500) (ones 4),
      scal (56 / 375) (ones 6)],
      concat [s4, s31 (1 / 14), s22 0.3994035761667992],
      4)"

definition Keast_5 :: "real list \<times> bary list \<times> nat" where
  "Keast_5 =
     (concat [scal (2 / 105) (ones 6), scal 0.0885898247429807 (ones 4),
      scal 0.1328387466855907 (ones 4)],
      concat [s22 0.5, s31 0.1005267652252045, s31 0.3143728734931922],
      4)"

definition Keast_6 :: "real list \<times> bary list \<times> nat" where
  "Keast_6 =
     (concat [scal (6544 / 36015) (ones 1), scal (81 / 2240) (ones 4),
      scal (161051 / 2304960) (ones 4), scal (338 / 5145) (ones 6)],
      concat [s4, s31 (1 / 3), s31 (1 / 11), s22 0.0665501535736643],
      5)"

definition Keast_7 :: "real list \<times> bary list \<times> nat" where
  "Keast_7 =
     (concat [scal 0.0399227502581679 (ones 4), scal 0.0100772110553207 (ones 4),
      scal 0.0553571815436544 (ones 4), scal (27 / 560) (ones 12)],
      concat [s31 0.2146028712591517, s31 0.0406739585346113, s31 0.3223378901422757,
      s211 0.0636610018750175 0.2696723314583159],
      6)"

definition Keast_8 :: "real list \<times> bary list \<times> nat" where
  "Keast_8 =
     (concat [scal 0.1095853407966528 (ones 1), scal 0.063599649146485 (ones 4),
      scal (- 0.3751064406859797) (ones 4), scal 0.0293485515784412 (ones 4),
      scal 0.0058201058201058 (ones 6), scal 0.1653439153439105 (ones 12)],
      concat [s4, s31 0.0782131923303186, s31 0.1218432166639044, s31 0.3325391644464206,
      s22 0.5, s211 0.1 0.2],
      7)"

definition Keast_9 :: "real list \<times> bary list \<times> nat" where
  "Keast_9 =
     (concat [scal (- 0.2359620398477557) (ones 1), scal 0.0244878963560562 (ones 4),
      scal 0.0039485206398261 (ones 4), scal 0.0263055529507371 (ones 6),
      scal 0.0829803830550589 (ones 6), scal 0.0254426245481023 (ones 12),
      scal 0.0134324384376852 (ones 12)],
      concat [s4, s31 0.127470936566639, s31 0.0320788303926323, s22 0.049777095643281,
      s22 0.1837304473985499, s211 0.2319010893971509 0.5132800333608811,
      s211 0.0379700484718286 0.1937464752488044],
      7)"

definition Keast_10 :: "real list \<times> bary list \<times> nat" where
  "Keast_10 =
     (scal 6 (concat [scal (- 0.0393270066412926145) (ones 1),
      scal 0.00408131605934270525 (ones 4), scal 0.000658086773304341943 (ones 4),
      scal 0.00438425882512284693 (ones 6), scal 0.0138300638425098166 (ones 6),
      scal 0.00424043742468372453 (ones 12), scal 0.00223873973961420164 (ones 12)]),
      concat [s4, s31 0.127470936566639015, s31 0.032078830392632296, s22 0.0497770956432810185,
      s22 0.183730447398549945, s211 0.231901089397150906 0.0229177878448171174,
      s211 0.0379700484718286102 0.730313427807538396],
      8)"

definition Keast_table :: "int \<Rightarrow> (real list \<times> bary list \<times> nat) option" where
  "Keast_table index =
     (if index = 0 then Some Keast_0
      else if index = 1 then Some Keast_1
      else if index = 2 then Some Keast_2
      else if index = 3 then Some Keast_3
      else if index = 4 then Some Keast_4
      else if index = 5 then Some Keast_5
      else if index = 6 then Some Keast_6
      else if index = 7 then Some Keast_7
      else if index = 8 then Some Keast_8
      else if index = 9 then Some Keast_9
      else if index = 10 then Some Keast_10
      else None)"

definition Keast :: "int \<Rightarrow> error + scheme" where
  "Keast index = assemble (Keast_table index) ''Illegal Keast index''"

subsubsection \<open>LiuVinokur\<close>

definition LiuVinokur_1 :: "real list \<times> bary list \<times> nat" where
  "LiuVinokur_1 =
     (concat [scal 1 (ones 1)],
      concat [s4],
      1)"

definition LiuVinokur_2 :: "real list \<times> bary list \<times> nat" where
  "LiuVinokur_2 =
     (concat [scal 0.25 (ones 4)],
      concat [r_alpha 1],
      1)"

definition LiuVinokur_3 :: "real list \<times> bary list \<times> nat" where
  "LiuVinokur_3 =
     (concat [scal 0.25 (ones 4)],
      concat [r_alpha (1 / (sqrt 5))],
      2)"

definition LiuVinokur_4 :: "real list \<times> bary list \<times> nat" where
  "LiuVinokur_4 =
     (concat [scal 0.8 (ones 1), scal 0.05 (ones 4)],
      concat [s4, r_alpha 1],
      2)"

definition LiuVinokur_5 :: "real list \<times> bary list \<times> nat" where
  "LiuVinokur_5 =
     (concat [scal (- 0.8) (ones 1), scal 0.45 (ones 4)],
      concat [s4, r_alpha (1 / 3)],
      3)"

definition LiuVinokur_6 :: "real list \<times> bary list \<times> nat" where
  "LiuVinokur_6 =
     (concat [scal (1 / 40) (ones 4), scal (9 / 40) (ones 4)],
      concat [r_alpha 1, r_alpha ((- 1) / 3)],
      3)"

definition LiuVinokur_7 :: "real list \<times> bary list \<times> nat" where
  "LiuVinokur_7 =
     (concat [scal ((- 148) / 1875) (ones 1), scal (343 / 7500) (ones 4),
      scal (56 / 375) (ones 6)],
      concat [s4, r_alpha (5 / 7), r_beta ((sqrt 70) / 28)],
      4)"

definition LiuVinokur_8 :: "real list \<times> bary list \<times> nat" where
  "LiuVinokur_8 =
     (let alpha1 = (((sqrt (65944 - (19446 * (sqrt 11)))) + (51 * (sqrt 11))) - 154) / 89;
          alpha2 = (((- (sqrt (65944 - (19446 * (sqrt 11))))) + (51 * (sqrt 11))) - 154) / 89
      in (concat [scal (((17 * alpha2) - 7) / ((420 * (alpha1 ^ 2)) * (alpha2 - alpha1))) (ones 4),
          scal (((17 * alpha1) - 7) / ((420 * (alpha2 ^ 2)) * (alpha1 - alpha2))) (ones 4),
          scal (2 / 105) (ones 6)],
          concat [r_alpha alpha1, r_alpha alpha2, r_beta 0.5],
          4))"

definition LiuVinokur_9 :: "real list \<times> bary list \<times> nat" where
  "LiuVinokur_9 =
     (concat [scal ((- 32) / 15) (ones 1), scal (3 / 280) (ones 4), scal (125 / 168) (ones 4),
      scal (2 / 105) (ones 6)],
      concat [s4, r_alpha 1, r_alpha 0.2, r_beta 0.5],
      4)"

definition LiuVinokur_10 :: "real list \<times> bary list \<times> nat" where
  "LiuVinokur_10 =
     (concat [scal (32 / 105) (ones 1), scal ((- 31) / 840) (ones 4), scal (27 / 280) (ones 4),
      scal (4 / 105) (ones 12)],
      concat [s4, r_alpha 1, r_alpha ((- 1) / 3),
      r_gamma_delta ((2 + (sqrt 2)) / 4) ((2 - (sqrt 2)) / 4)],
      4)"

definition LiuVinokur_11 :: "real list \<times> bary list \<times> nat" where
  "LiuVinokur_11 =
     (concat [scal ((11 - (4 * (sqrt 2))) / 840) (ones 4),
      scal ((243 - (108 * (sqrt 2))) / 1960) (ones 4),
      scal ((62 + (44 * (sqrt 2))) / 735) (ones 4), scal (2 / 105) (ones 6)],
      concat [r_alpha 1, r_alpha ((- 1) / 3), r_alpha ((sqrt 2) - 1), r_beta 0.5],
      4)"

definition LiuVinokur_12 :: "real list \<times> bary list \<times> nat" where
  "LiuVinokur_12 =
     (let lmbda = (4 / 27) * (((4 * (sqrt 79)) * (cos (((arccos ((67 * (sqrt 79)) / 24964)) + (2 * pi)) / 3))) + 71);
          alpha1 = (((sqrt (((9 * (lmbda ^ 2)) - (248 * lmbda)) + 1680)) + 28) - (3 * lmbda)) / (112 - (10 * lmbda));
          alpha2 = (((- (sqrt (((9 * (lmbda ^ 2)) - (248 * lmbda)) + 1680))) + 28) - (3 * lmbda)) / (112 - (10 * lmbda));
          w1 = (((21 - lmbda) * alpha2) - 7) / ((420 * (alpha1 ^ 2)) * (alpha2 - alpha1));
          w2 = (((21 - lmbda) * alpha1) - 7) / ((420 * (alpha2 ^ 2)) * (alpha1 - alpha2))
      in (concat [scal w1 (ones 4), scal w2 (ones 4), scal ((lmbda ^ 2) / 840) (ones 6)],
          concat [r_alpha alpha1, r_alpha alpha2, r_beta (1 / (sqrt lmbda))],
          5))"

definition LiuVinokur_13 :: "real list \<times> bary list \<times> nat" where
  "LiuVinokur_13 =
     (concat [scal ((- 16) / 21) (ones 1), scal ((2249 - (391 * (sqrt 13))) / 10920) (ones 4),
      scal ((2249 + (391 * (sqrt 13))) / 10920) (ones 4), scal (2 / 105) (ones 6)],
      concat [s4, r_alpha ((2 + (sqrt 13)) / 9), r_alpha ((2 - (sqrt 13)) / 9), r_beta 0.5],
      5)"

definition LiuVinokur_14 :: "real list \<times> bary list \<times> nat" where
  "LiuVinokur_14 =
     (concat [scal (16 / 105) (ones 1), scal (1 / 280) (ones 4), scal (81 / 1400) (ones 4),
      scal (64 / 525) (ones 4), scal (2 / 105) (ones 6)],
      concat [s4, r_alpha 1, r_alpha ((- 1) / 3), r_alpha 0.5, r_beta 0.5],
      5)"

definition LiuVinokur_table :: "int \<Rightarrow> (real list \<times> bary list \<times> nat) option" where
  "LiuVinokur_table index =
     (if index = 1 then Some LiuVinokur_1
      else if index = 2 then Some LiuVinokur_2
      else if index = 3 then Some LiuVinokur_3
      else if index = 4 then Some LiuVinokur_4
      else if index = 5 then Some LiuVinokur_5
      else if index = 6 then Some LiuVinokur_6
      else if index = 7 then Some LiuVinokur_7
      else if index = 8 then Some LiuVinokur_8
      else if index = 9 then Some LiuVinokur_9
      else if index = 10 then Some LiuVinokur_10
      else if index = 11 then Some LiuVinokur_11
      else if index = 12 then Some LiuVinokur_12
      else if index = 13 then Some LiuVinokur_13
      else if index = 14 then Some LiuVinokur_14
      else None)"

definition LiuVinokur :: "int \<Rightarrow> error + scheme" where
  "LiuVinokur index = assemble (LiuVinokur_table index) ''Illegal Liu-Vinokur index''"

subsubsection \<open>Zienkiewicz\<close>

definition Zienkiewicz_4 :: "real list \<times> bary list \<times> nat" where
  "Zienkiewicz_4 =
     (scal 0.25 (ones 4),
      s31 0.1381966011250105,
      2)"

definition Zienkiewicz_5 :: "real list \<times> bary list \<times> nat" where
  "Zienkiewicz_5 =
     (concat [scal (- 0.8) (ones 1), scal 0.45 (ones 4)],
      concat [s4, s31 (1 / 6)],
      3)"

definition Zienkiewicz_table :: "int \<Rightarrow> (real list \<times> bary list \<times> nat) option" where
  "Zienkiewicz_table index =
     (if index = 4 then Some Zienkiewicz_4
      else if index = 5 then Some Zienkiewicz_5
      else None)"

definition Zienkiewicz :: "int \<Rightarrow> error + scheme" where
  "Zienkiewicz index = assemble (Zienkiewicz_table index) ''Illegal closed Newton-Cotes index''"

subsubsection \<open>ZhangCuiLiu\<close>





subsubsection \<open>ShunnHam\<close>









subsection \<open>Newton--Cotes schemes\<close>

text \<open>
  \<open>point_fun\<close> is applied in two ways.  In \<open>bary = point_fun(idx, n)\<close> its first
  argument is a numpy integer array, and numpy's division never raises: at a zero
  divisor it yields \<open>nan\<close> (for \<open>0 / 0.0\<close>) or an infinity.  In \<open>get_poly\<close> its
  first argument is a Python \<open>int\<close>; that code is reached only after the early
  return for \<open>n == 0\<close>.  The two uses are two components of a \<open>node_fun\<close>.
\<close>

datatype npfloat = Finite real | PosInf | NegInf | NaN

definition np_div :: "real \<Rightarrow> real \<Rightarrow> npfloat" where
  "np_div x y =
     (if y \<noteq> 0 then Finite (x / y)
      else if x = 0 then NaN
      else if 0 < x then PosInf else NegInf)"

text \<open>
  The numbers that \<open>get_poly\<close> computes with are Python and sympy numbers.  An
  \<open>int\<close>, a sympy \<open>Integer\<close> or \<open>Rational\<close> is exact; a \<open>float\<close> or sympy \<open>Float\<close>
  is not.  An operation on exact numbers is exact (the divisions of \<open>get_poly\<close>
  are sympy's, their numerator being an expression in \<open>t\<close>); an operation with a
  float operand yields a float.  A \<open>pynum\<close> is a number with its kind; \<open>val\<close> is
  the real number it stands for.
\<close>

datatype pynum = Exact rat | PyFloat real

fun val :: "pynum \<Rightarrow> real" where
  "val (Exact q) = of_rat q"
| "val (PyFloat x) = x"

fun is_float :: "pynum \<Rightarrow> bool" where
  "is_float (Exact q) = False"
| "is_float (PyFloat x) = True"

instantiation pynum :: "{zero, one, plus, minus, times, inverse}"
begin

definition zero_pynum :: pynum where
  "zero_pynum = Exact 0"

definition one_pynum :: pynum where
  "one_pynum = Exact 1"

fun plus_pynum :: "pynum \<Rightarrow> pynum \<Rightarrow> pynum" where
  "plus_pynum (Exact a) (Exact b) = Exact (a + b)"
| "plus_pynum x y = PyFloat (val x + val y)"

fun minus_pynum :: "pynum \<Rightarrow> pynum \<Rightarrow> pynum" where
  "minus_pynum (Exact a) (Exact b) = Exact (a - b)"
| "minus_pynum x y = PyFloat (val x - val y)"

fun times_pynum :: "pynum \<Rightarrow> pynum \<Rightarrow> pynum" where
  "times_pynum (Exact a) (Exact b) = Exact (a * b)"
| "times_pynum x y = PyFloat (val x * val y)"

fun divide_pynum :: "pynum \<Rightarrow> pynum \<Rightarrow> pynum" where
  "divide_pynum (Exact a) (Exact b) = Exact (a / b)"
| "divide_pynum x y = PyFloat (val x / val y)"

fun inverse_pynum :: "pynum \<Rightarrow> pynum" where
  "inverse_pynum (Exact a) = Exact (1 / a)"
| "inverse_pynum (PyFloat x) = PyFloat (1 / x)"

instance ..

end

text \<open>\<open>float(n)\<close> for an \<open>int\<close> \<open>n\<close>.\<close>

definition float_of :: "nat \<Rightarrow> pynum" where
  "float_of n = PyFloat (real n)"

record node_fun =
  on_array :: "nat \<Rightarrow> nat \<Rightarrow> npfloat"
  on_int :: "nat \<Rightarrow> nat \<Rightarrow> pynum"

text \<open>\<open>lambda k, n: k / float(n)\<close> and \<open>lambda k, n: (k+1) / float(n+4)\<close>.\<close>

definition closed_fun :: node_fun where
  "closed_fun = \<lparr>on_array = (\<lambda>k n. np_div (real k) (real n)),
                 on_int = (\<lambda>k n. Exact (of_nat k) / float_of n)\<rparr>"

definition open_fun :: node_fun where
  "open_fun = \<lparr>on_array = (\<lambda>k n. np_div (real (k + 1)) (real (n + 4))),
               on_int = (\<lambda>k n. Exact (of_nat (k + 1)) / float_of (n + 4))\<rparr>"

text \<open>The lattice \<open>idx\<close>; the weight loop runs through the same indices in the
  same order.\<close>

definition lattice :: "nat \<Rightarrow> (nat \<times> nat \<times> nat \<times> nat) list" where
  "lattice n =
     [(i, j, k, n - i - j - k).
        i \<leftarrow> [0..<n + 1], j \<leftarrow> [0..<n + 1 - i], k \<leftarrow> [0..<n + 1 - i - j]]"

text \<open>
  Univariate polynomials are coefficient lists, constant term first.  A sympy
  \<open>Poly\<close> keeps the nonzero terms only; a list also carries zero coefficients,
  which add nothing to the sum that \<open>_newton_cotes\<close> forms over the terms.  The
  operations are those of the coefficient type, \<open>pynum\<close> in the program.
\<close>

type_synonym poly1 = "real list"

fun padd :: "'a::plus list \<Rightarrow> 'a list \<Rightarrow> 'a list" where
  "padd [] q = q"
| "padd p [] = p"
| "padd (a # p) (b # q) = (a + b) # padd p q"

fun pmul :: "'a::{zero,plus,times} list \<Rightarrow> 'a list \<Rightarrow> 'a list" where
  "pmul [] q = []"
| "pmul (a # p) q = padd (map (\<lambda>b. a * b) q) (0 # pmul p q)"

text \<open>\<open>sympy.poly((t - point_fun(k, n)) / (point_fun(m, n) - point_fun(k, n)))\<close>.\<close>

definition lagrange_factor ::
  "(nat \<Rightarrow> nat \<Rightarrow> 'a::{zero,one,minus,inverse}) \<Rightarrow> nat \<Rightarrow> nat \<Rightarrow> nat \<Rightarrow> 'a list" where
  "lagrange_factor pf k m n =
     [(0 - pf k n) / (pf m n - pf k n), 1 / (pf m n - pf k n)]"

definition get_poly ::
  "(nat \<Rightarrow> nat \<Rightarrow> 'a::{zero,one,plus,minus,times,inverse}) \<Rightarrow> nat \<Rightarrow> nat \<Rightarrow> 'a list" where
  "get_poly pf m n = foldl pmul [1] (map (\<lambda>k. lagrange_factor pf k m n) [0..<m])"

text \<open>The terms \<open>zip(g.monoms(), g.coeffs())\<close> of the product \<open>g\<close> of four
  polynomials in the four variables \<open>t[0]\<close>, ..., \<open>t[3]\<close>.  Where \<open>get_poly\<close>
  returns the constant \<open>1\<close>, sympy's \<open>g\<close> lacks that variable and its exponent
  tuples are shorter; the exponent is \<open>0\<close> here, which changes neither the product
  of the factorials nor the sum of the exponents.\<close>

definition terms4 ::
  "'a::times list \<Rightarrow> 'a list \<Rightarrow> 'a list \<Rightarrow> 'a list \<Rightarrow> ((nat \<times> nat \<times> nat \<times> nat) \<times> 'a) list" where
  "terms4 p0 p1 p2 p3 =
     [((a, b, c, d), p0 ! a * p1 ! b * p2 ! c * p3 ! d).
        a \<leftarrow> [0..<length p0], b \<leftarrow> [0..<length p1],
        c \<leftarrow> [0..<length p2], d \<leftarrow> [0..<length p3]]"

text \<open>The product \<open>numpy.prod([math.factorial(k) for k in m])\<close>.  The list holds
  Python ints.  Where each of them fits in 64 bits, numpy converts the list to an
  array of \<open>int64\<close> (its default integer, 64 bits wide on Linux and macOS) and
  multiplies in \<open>int64\<close>: the product wraps modulo \<open>2^64\<close> without notice.  Where
  one of them does not fit (from \<open>21!\<close> on, which exceeds \<open>2^64\<close> too, so that no
  factorial falls in the range of \<open>uint64\<close> only) the array holds Python objects
  and the product is that of Python's unbounded ints.\<close>

definition wrap_int64 :: "int \<Rightarrow> int" where
  "wrap_int64 z = (z + 2 ^ 63) mod 2 ^ 64 - 2 ^ 63"

definition numpy_prod :: "int list \<Rightarrow> int" where
  "numpy_prod xs =
     (if list_all (\<lambda>x. - (2 ^ 63) \<le> x \<and> x < 2 ^ 63) xs then wrap_int64 (prod_list xs)
      else prod_list xs)"

text \<open>One summand \<open>c * numpy.prod([...]) * 6.0 / math.factorial(...)\<close>: the
  factor \<open>6.0\<close> makes it a float whatever the coefficient \<open>c\<close> is, and the sum
  is stored in the numpy float array \<open>weights\<close>; the summand is its value.  The
  exponent tuple \<open>m\<close> of sympy has one entry for each variable that occurs in
  \<open>g\<close>; an absent variable has exponent \<open>0\<close> here and contributes the factor
  \<open>0! = 1\<close>, which changes neither the product nor the type of the array.
  \<open>math.factorial\<close> of the sum returns a Python int and does not wrap.\<close>

fun monomial_integral :: "(nat \<times> nat \<times> nat \<times> nat) \<times> pynum \<Rightarrow> real" where
  "monomial_integral ((a, b, c, d), co) =
     val co * of_int (numpy_prod [fact a, fact b, fact c, fact d]) * 6
       / fact (a + b + c + d + 3)"

text \<open>The terms of \<open>g\<close> at a lattice index, and the weight there.\<close>

fun g_terms ::
  "(nat \<Rightarrow> nat \<Rightarrow> pynum) \<Rightarrow> nat \<Rightarrow> nat \<times> nat \<times> nat \<times> nat
     \<Rightarrow> ((nat \<times> nat \<times> nat \<times> nat) \<times> pynum) list" where
  "g_terms pf n (i, j, k, l) =
     terms4 (get_poly pf i n) (get_poly pf j n) (get_poly pf k n) (get_poly pf l n)"

definition nc_weight :: "(nat \<Rightarrow> nat \<Rightarrow> pynum) \<Rightarrow> nat \<Rightarrow> nat \<times> nat \<times> nat \<times> nat \<Rightarrow> real" where
  "nc_weight pf n idx = sum_list (map monomial_integral (g_terms pf n idx))"

record nc_scheme =
  nc_points :: "(npfloat \<times> npfloat \<times> npfloat) list"
  nc_weights :: "real list"
  nc_degree :: nat

fun nc_point :: "(nat \<Rightarrow> nat \<Rightarrow> npfloat) \<Rightarrow> nat \<Rightarrow> nat \<times> nat \<times> nat \<times> nat \<Rightarrow> npfloat \<times> npfloat \<times> npfloat" where
  "nc_point pfa n (i, j, k, l) = (pfa j n, pfa k n, pfa l n)"

definition newton_cotes :: "nat \<Rightarrow> node_fun \<Rightarrow> nc_scheme" where
  "newton_cotes n point_fun =
     (let idx = lattice n;
          pts = map (nc_point (on_array point_fun) n) idx
      in if n = 0 then \<lparr>nc_points = pts, nc_weights = ones 1, nc_degree = n\<rparr>
         else \<lparr>nc_points = pts,
               nc_weights = map (nc_weight (on_int point_fun) n) idx,
               nc_degree = n\<rparr>)"

definition NewtonCotesClosed :: "nat \<Rightarrow> nc_scheme" where
  "NewtonCotesClosed n = newton_cotes n closed_fun"

definition NewtonCotesOpen :: "nat \<Rightarrow> nc_scheme" where
  "NewtonCotesOpen n = newton_cotes n open_fun"

subsection \<open>The integrator\<close>

text \<open>
  A tetrahedron is four vertices of three coordinates.  The array \<open>x\<close> of shape
  \<open>(3, k)\<close> is a triple of rows.  \<open>J0\<close>, \<open>J1\<close>, \<open>J2\<close> and \<open>det\<close> have a trailing
  axis of length one in the source; they are scalars here.
\<close>

type_synonym tetrahedron = "point3 \<times> point3 \<times> point3 \<times> point3"
type_synonym coords = "real list \<times> real list \<times> real list"

fun outer :: "point3 \<Rightarrow> real list \<Rightarrow> coords" where
  "outer (a, b, c) s = (map (\<lambda>t. a * t) s, map (\<lambda>t. b * t) s, map (\<lambda>t. c * t) s)"

fun add_coords :: "coords \<Rightarrow> coords \<Rightarrow> coords" where
  "add_coords (x, y, z) (x', y', z') =
     (map2 (+) x x', map2 (+) y y', map2 (+) z z')"

text \<open>\<open>- numpy.outer(u, 1.0) + numpy.outer(v, 1.0)\<close>.\<close>

fun edge :: "point3 \<Rightarrow> point3 \<Rightarrow> point3" where
  "edge (a, b, c) (a', b', c') = (- (a * 1) + a' * 1, - (b * 1) + b' * 1, - (c * 1) + c' * 1)"

fun det3 :: "point3 \<Rightarrow> point3 \<Rightarrow> point3 \<Rightarrow> real" where
  "det3 (j00, j01, j02) (j10, j11, j12) (j20, j21, j22) =
     j00 * j11 * j22 + j10 * j21 * j02 + j20 * j01 * j12
     - j02 * j11 * j20 - j12 * j21 * j00 - j22 * j01 * j10"

fun scaled_det :: "tetrahedron \<Rightarrow> real" where
  "scaled_det (t0, t1, t2, t3) = det3 (edge t0 t1) (edge t0 t2) (edge t0 t3) * (1 / 6)"

fun mapped_points :: "tetrahedron \<Rightarrow> point3 list \<Rightarrow> coords" where
  "mapped_points (t0, t1, t2, t3) pts =
     (let xi0 = map (\<lambda>(p0, p1, p2). p0) pts;
          xi1 = map (\<lambda>(p0, p1, p2). p1) pts;
          xi2 = map (\<lambda>(p0, p1, p2). p2) pts
      in add_coords (add_coords (add_coords
           (outer t0 (map (\<lambda>(p0, p1, p2). 1 - p0 - p1 - p2) pts))
           (outer t1 xi0))
           (outer t2 xi1))
           (outer t3 xi2))"

text \<open>The product of two one-dimensional arrays under numpy's broadcasting.\<close>

definition broadcast_mul :: "real list \<Rightarrow> real list \<Rightarrow> error + real list" where
  "broadcast_mul xs ys =
     (if length xs = length ys then Inr (map2 (*) xs ys)
      else if length xs = 1 then Inr (map (\<lambda>y. hd xs * y) ys)
      else if length ys = 1 then Inr (map (\<lambda>x. x * hd ys) xs)
      else Inl (ValueError ''operands could not be broadcast together''))"

text \<open>\<open>math.fsum\<close> returns the sum without intermediate rounding.\<close>

definition fsum :: "real list \<Rightarrow> real" where
  "fsum xs = sum_list xs"

definition integrate :: "(coords \<Rightarrow> real list) \<Rightarrow> tetrahedron \<Rightarrow> scheme \<Rightarrow> error + real" where
  "integrate f tetrahedron sch =
     (let x = mapped_points tetrahedron (points sch);
          det = scaled_det tetrahedron
      in case broadcast_mul (weights sch) (f x) of
           Inl e \<Rightarrow> Inl e
         | Inr prods \<Rightarrow> Inr (fsum (map (\<lambda>t. t * \<bar>det\<bar>) prods)))"

section \<open>n-cube schemes: \<open>quadpy/ncube/_stroud_1957.py\<close>\<close>

record ncube_scheme =
  cube_name :: string
  cube_dim :: nat
  cube_weights :: "real list"
  cube_points :: "real list list"
  cube_degree :: nat

datatype weight_spec = Scalar real | PerPoint "real list"

text \<open>Modelled from the spec: \<open>untangle\<close> of \<open>quadpy/helpers\<close> is not among the
  sources.  Its input is an ordered sequence of (weight-spec, point-array) pairs,
  a weight-spec being a scalar, broadcast over its group, or a per-point array
  whose length must be the number of rows of the point-array; the output is the
  two flat arrays (points, weights) in input order; a per-point array of another
  length is a \<open>ShapeMismatch\<close>.\<close>

fun untangle :: "(weight_spec \<times> real list list) list \<Rightarrow> error + (real list list \<times> real list)" where
  "untangle [] = Inr ([], [])"
| "untangle ((w, grp) # data) =
     (case untangle data of
        Inl e \<Rightarrow> Inl e
      | Inr (pts, ws) \<Rightarrow>
          (case w of
             Scalar c \<Rightarrow> Inr (grp @ pts, replicate (length grp) c @ ws)
           | PerPoint cs \<Rightarrow>
               if length cs = length grp then Inr (grp @ pts, cs @ ws)
               else Inl ShapeMismatch))"



text \<open>The rows stacked by \<open>numpy.vstack(pts)\<close>, before the transposition.\<close>

definition trig_pair :: "nat \<Rightarrow> nat \<Rightarrow> real list list" where
  "trig_pair n k =
     [[sqrt (2 / 3) * cos ((2 * real k - 1) * real i * pi / real n). i \<leftarrow> [1..<2 * n + 1]],
      [sqrt (2 / 3) * sin ((2 * real k - 1) * real i * pi / real n). i \<leftarrow> [1..<2 * n + 1]]]"

definition sqrt3pm :: "nat \<Rightarrow> real list" where
  "sqrt3pm n = map (\<lambda>i. if i mod 2 = 1 then 1 / sqrt 3 * (- 1) else 1 / sqrt 3) [0..<2 * n]"

definition stacked_rows :: "nat \<Rightarrow> real list list" where
  "stacked_rows n =
     (let n2 = (if n mod 2 = 0 then n div 2 else (n - 1) div 2);
          pts = concat (map (trig_pair n) [1..<n2 + 1])
      in if n mod 2 = 1 then pts @ [sqrt3pm n] else pts)"

definition stroud_1957_3 :: "nat \<Rightarrow> error + ncube_scheme" where
  "stroud_1957_3 n =
     (let rows = stacked_rows n
      in if rows = [] then Inl (ValueError ''need at least one array to concatenate'')
         else
           (let pts = transpose rows;
                data = [(Scalar (1 / real (2 * n)), pts)]
            in case untangle data of
                 Inl e \<Rightarrow> Inl e
               | Inr (pts', ws) \<Rightarrow>
                   (let reference_volume = 2 ^ n
                    in Inr \<lparr>cube_name = ''Stroud 1957-3'', cube_dim = n,
                            cube_weights = map (\<lambda>w. w * reference_volume) ws,
                            cube_points = pts', cube_degree = 3\<rparr>)))"

section \<open>Notions the properties refer to\<close>

text \<open>The constant integrand \<open>1\<close> and the monomial \<open>x\<close>, vectorised: one value
  for each column of the array of mapped points.\<close>

definition const_one :: "coords \<Rightarrow> real list" where
  "const_one x = (case x of (xs, ys, zs) \<Rightarrow> map (\<lambda>_. 1) xs)"

definition first_coordinate :: "coords \<Rightarrow> real list" where
  "first_coordinate x = (case x of (xs, ys, zs) \<Rightarrow> xs)"

definition reference_tetrahedron :: tetrahedron where
  "reference_tetrahedron = ((0, 0, 0), (1, 0, 0), (0, 1, 0), (0, 0, 1))"

text \<open>The determinant of the matrix of the three edge vectors from the first
  vertex, expanded along its first row, and the volume it gives.  This is the
  textbook formula, written independently of \<open>det3\<close>.\<close>

fun edge_matrix_det :: "tetrahedron \<Rightarrow> real" where
  "edge_matrix_det ((x0, y0, z0), (x1, y1, z1), (x2, y2, z2), (x3, y3, z3)) =
     (x1 - x0) * ((y2 - y0) * (z3 - z0) - (z2 - z0) * (y3 - y0))
   - (y1 - y0) * ((x2 - x0) * (z3 - z0) - (z2 - z0) * (x3 - x0))
   + (z1 - z0) * ((x2 - x0) * (y3 - y0) - (y2 - y0) * (x3 - x0))"

definition true_volume :: "tetrahedron \<Rightarrow> real" where
  "true_volume t = \<bar>edge_matrix_det t / 6\<bar>"

text \<open>A tetrahedron whose four vertices lie in the plane \<open>z = 0\<close>, and a
  one-point scheme, for the concrete instances below.\<close>

definition flat_tetrahedron :: tetrahedron where
  "flat_tetrahedron = ((0, 0, 0), (1, 0, 0), (0, 1, 0), (1, 1, 0))"

definition centroid_scheme :: scheme where
  "centroid_scheme = \<lparr>weights = [1], points = [(0.25, 0.25, 0.25)], degree = 1\<rparr>"




section \<open>Notions for the Newton--Cotes weights\<close>

text \<open>The coefficient of \<open>t^a\<close> in a coefficient list, \<open>0\<close> beyond its end.\<close>

definition coeff :: "poly1 \<Rightarrow> nat \<Rightarrow> real" where
  "coeff p a = (if a < length p then p ! a else 0)"

text \<open>
  For nodes \<open>point_fun(k, n) = (k + c) / N\<close> the polynomial \<open>get_poly(t, m, n)\<close> is
  the binomial polynomial \<open>(N t - c) (N t - c - 1) \<dots> (N t - c - m + 1) / m!\<close>.
  Its coefficients obey the recursion of that product: multiplying by
  \<open>(N t - c - m) / (m + 1)\<close> leads from \<open>m\<close> to \<open>m + 1\<close>.
\<close>

fun silvester :: "real \<Rightarrow> real \<Rightarrow> nat \<Rightarrow> nat \<Rightarrow> real" where
  "silvester N c 0 a = (if a = 0 then 1 else 0)"
| "silvester N c (Suc m) a =
     (N * (if a = 0 then 0 else silvester N c m (a - 1)) - (real m + c) * silvester N c m a)
       / real (Suc m)"

text \<open>The integral of the monomial \<open>t\<^sub>0\<^sup>a t\<^sub>1\<^sup>b t\<^sub>2\<^sup>c t\<^sub>3\<^sup>d\<close> over the
  tetrahedron, normalised to volume \<open>1\<close> (Silvester's formula), and the factor that
  \<open>_newton_cotes\<close> puts on that monomial, with the product of factorials as numpy
  computes it.\<close>

definition phi :: "nat \<Rightarrow> nat \<Rightarrow> nat \<Rightarrow> nat \<Rightarrow> real" where
  "phi a b c d = (fact a * fact b * fact c * fact d) * 6 / fact (a + b + c + d + 3)"

definition phi_wrapped :: "nat \<Rightarrow> nat \<Rightarrow> nat \<Rightarrow> nat \<Rightarrow> real" where
  "phi_wrapped a b c d =
     of_int (numpy_prod [fact a, fact b, fact c, fact d]) * 6 / fact (a + b + c + d + 3)"

text \<open>The sum over the terms of a product of four univariate polynomials, as
  four nested sums over exponents below a common bound \<open>K\<close>.\<close>

definition pairing :: "nat \<Rightarrow> (nat \<Rightarrow> real) \<Rightarrow> (nat \<Rightarrow> real) \<Rightarrow> real" where
  "pairing K f g = (\<Sum>a<K. f a * g a)"

definition pairing4 ::
  "nat \<Rightarrow> (nat \<Rightarrow> real) \<Rightarrow> (nat \<Rightarrow> real) \<Rightarrow> (nat \<Rightarrow> real) \<Rightarrow> (nat \<Rightarrow> real)
     \<Rightarrow> (nat \<Rightarrow> nat \<Rightarrow> nat \<Rightarrow> nat \<Rightarrow> real) \<Rightarrow> real" where
  "pairing4 K f0 f1 f2 f3 F =
     pairing K f0 (\<lambda>a. pairing K f1 (\<lambda>b. pairing K f2 (\<lambda>c. pairing K f3 (\<lambda>d. F a b c d))))"

text \<open>The weight at a lattice index, in terms of the recursion, and the index
  set of the lattice.\<close>

definition basis_integral :: "real \<Rightarrow> real \<Rightarrow> nat \<Rightarrow> nat \<times> nat \<times> nat \<times> nat \<Rightarrow> real" where
  "basis_integral N c K idx = (case idx of (i, j, k, l) \<Rightarrow>
     pairing4 K (silvester N c i) (silvester N c j) (silvester N c k) (silvester N c l) phi)"

text \<open>What the wrapped product changes in the weight at a lattice index, for
  orders up to \<open>23\<close>: the leading coefficient \<open>N^i/i! N^j/j! N^k/k! N^l/l!\<close> of
  \<open>g\<close> times the difference of the two factors at the leading monomial.\<close>

definition wrap_defect :: "real \<Rightarrow> nat \<times> nat \<times> nat \<times> nat \<Rightarrow> real" where
  "wrap_defect N idx = (case idx of (i, j, k, l) \<Rightarrow>
     N ^ i / fact i * (N ^ j / fact j * (N ^ k / fact k * (N ^ l / fact l
       * (phi_wrapped i j k l - phi i j k l)))))"

definition compositions :: "nat \<Rightarrow> (nat \<times> nat \<times> nat \<times> nat) set" where
  "compositions n = {(i, j, k, l). i + j + k + l = n}"

section \<open>Orbit generators\<close>



section \<open>Indices outside a family's table\<close>

text \<open>
  Claim C5.  \<open>Keast\<close> raises \<open>ValueError\<close> for every integer index outside
  \<open>0..10\<close>, \<open>LiuVinokur\<close> for every index outside \<open>1..14\<close>, and \<open>Zienkiewicz\<close> for
  every index other than \<open>4\<close> and \<open>5\<close>; no scheme is returned.
\<close>

theorem illegal_index_raises:
  "(index < 0 \<or> 10 < index \<longrightarrow> Keast index = Inl (ValueError ''Illegal Keast index''))
   \<and> (index < 1 \<or> 14 < index \<longrightarrow>
        LiuVinokur index = Inl (ValueError ''Illegal Liu-Vinokur index''))
   \<and> (index \<noteq> 4 \<and> index \<noteq> 5 \<longrightarrow>
        Zienkiewicz index = Inl (ValueError ''Illegal closed Newton-Cotes index''))"
  by (auto simp add: Keast_def Keast_table_def LiuVinokur_def LiuVinokur_table_def
      Zienkiewicz_def Zienkiewicz_table_def assemble_def)

theorem illegal_index_raises_witness:
  "Keast 11 = Inl (ValueError ''Illegal Keast index'')
   \<and> Keast (- 1) = Inl (ValueError ''Illegal Keast index'')
   \<and> LiuVinokur 0 = Inl (ValueError ''Illegal Liu-Vinokur index'')
   \<and> LiuVinokur 15 = Inl (ValueError ''Illegal Liu-Vinokur index'')
   \<and> Zienkiewicz 1 = Inl (ValueError ''Illegal closed Newton-Cotes index'')
   \<and> Zienkiewicz 2 = Inl (ValueError ''Illegal closed Newton-Cotes index'')
   \<and> Zienkiewicz 3 = Inl (ValueError ''Illegal closed Newton-Cotes index'')"
  using illegal_index_raises [of 11] illegal_index_raises [of "- 1"]
    illegal_index_raises [of 0] illegal_index_raises [of 15]
    illegal_index_raises [of 1] illegal_index_raises [of 2] illegal_index_raises [of 3]
  by simp

section \<open>The integrator\<close>

lemma mapped_points_rows:
  "mapped_points ((x0, y0, z0), (x1, y1, z1), (x2, y2, z2), (x3, y3, z3)) pts =
     (map (\<lambda>(p0, p1, p2). x0 * (1 - p0 - p1 - p2) + x1 * p0 + x2 * p1 + x3 * p2) pts,
      map (\<lambda>(p0, p1, p2). y0 * (1 - p0 - p1 - p2) + y1 * p0 + y2 * p1 + y3 * p2) pts,
      map (\<lambda>(p0, p1, p2). z0 * (1 - p0 - p1 - p2) + z1 * p0 + z2 * p1 + z3 * p2) pts)"
  by (induction pts) (auto simp add: Let_def)

text \<open>The six-term expression of \<open>integrate\<close> is the determinant of the edge
  matrix.\<close>

lemma scaled_det_eq: "scaled_det t = edge_matrix_det t / 6"
  by (cases t rule: prod_cases4; cases "fst t"; cases "fst (snd t)";
      cases "fst (snd (snd t))"; cases "snd (snd (snd t))")
     (simp add: algebra_simps)

text \<open>
  Claim C2.  With the constant integrand \<open>1\<close> and the one-point scheme
  \<open>Keast(0)\<close>, \<open>integrate\<close> returns the volume of the tetrahedron, the absolute
  value of a sixth of the determinant of its edge matrix; for the reference
  tetrahedron that is \<open>1/6\<close>.  The equation holds for every tetrahedron, the
  non-degenerate ones among them.
\<close>

theorem keast0_integrates_volume:
  "(\<exists>s. Keast 0 = Inr s \<and> integrate const_one t s = Inr (true_volume t))
   \<and> (\<exists>s. Keast 0 = Inr s \<and> integrate const_one reference_tetrahedron s = Inr (1 / 6))"
proof -
  have general: "\<exists>s. Keast 0 = Inr s \<and> integrate const_one u s = Inr (true_volume u)" for u
  proof -
    obtain x0 y0 z0 x1 y1 z1 x2 y2 z2 x3 y3 z3
      where u: "u = ((x0, y0, z0), (x1, y1, z1), (x2, y2, z2), (x3, y3, z3))"
      by (metis prod_cases3)
    show ?thesis
      unfolding u
      by (simp add: Keast_def Keast_table_def Keast_0_def assemble_def integrate_def s4_def
          broadcast_mul_def fsum_def const_one_def true_volume_def mapped_points_rows
          scaled_det_eq del: mapped_points.simps scaled_det.simps edge_matrix_det.simps)
  qed
  moreover have "true_volume reference_tetrahedron = 1 / 6"
    by (simp add: true_volume_def reference_tetrahedron_def)
  ultimately show ?thesis
    by metis
qed

text \<open>
  Claim C3.  Over the reference tetrahedron, the four-point rule \<open>Keast(1)\<close>
  (orbit \<open>_s31(0.1381966011250105)\<close>, four weights \<open>0.25\<close>) integrates the
  monomial \<open>x\<close> to \<open>1/24\<close>.
\<close>

theorem keast1_integrates_x:
  "\<exists>s. Keast 1 = Inr s \<and> integrate first_coordinate reference_tetrahedron s = Inr (1 / 24)"
  by (simp add: Keast_def Keast_table_def Keast_1_def assemble_def integrate_def s31_def
      broadcast_mul_def fsum_def first_coordinate_def Let_def reference_tetrahedron_def
      scal_def ones_def mapped_points_rows eval_nat_numeral del: mapped_points.simps)

text \<open>
  Claim C9.  For a tetrahedron with coplanar vertices (determinant \<open>0\<close>) the
  integrator has no error of its own: it fails only where the product of the
  weights with the integrand's values fails for their shapes, whatever the
  tetrahedron, and otherwise returns \<open>0\<close>.  In particular it returns \<open>0\<close> for
  every integrand that yields one value for each weight.
\<close>

theorem integrate_degenerate:
  assumes "edge_matrix_det t = 0"
  shows "integrate f t sch =
           (case broadcast_mul (weights sch) (f (mapped_points t (points sch))) of
              Inl e \<Rightarrow> Inl e
            | Inr ps \<Rightarrow> Inr 0)
         \<and> (length (f (mapped_points t (points sch))) = length (weights sch)
              \<longrightarrow> integrate f t sch = Inr 0)"
proof -
  have zero: "sum_list (map (\<lambda>t. t * \<bar>0::real\<bar>) ps) = 0" for ps
    by (induction ps) simp_all
  have first: "integrate f t sch =
           (case broadcast_mul (weights sch) (f (mapped_points t (points sch))) of
              Inl e \<Rightarrow> Inl e
            | Inr ps \<Rightarrow> Inr 0)"
    using assms zero
    by (simp add: integrate_def scaled_det_eq fsum_def Let_def split: sum.splits)
  then show ?thesis
    by (simp add: broadcast_mul_def)
qed

theorem integrate_degenerate_witness:
  "edge_matrix_det flat_tetrahedron = 0
   \<and> length (first_coordinate (mapped_points flat_tetrahedron (points centroid_scheme)))
       = length (weights centroid_scheme)
   \<and> integrate first_coordinate flat_tetrahedron centroid_scheme = Inr 0"
proof -
  have d: "edge_matrix_det flat_tetrahedron = 0"
    by (simp add: flat_tetrahedron_def)
  have l: "length (first_coordinate (mapped_points flat_tetrahedron (points centroid_scheme)))
       = length (weights centroid_scheme)"
    by (simp add: flat_tetrahedron_def centroid_scheme_def first_coordinate_def)
  from integrate_degenerate [OF d, of first_coordinate centroid_scheme] l d
  show ?thesis
    by blast
qed

section \<open>Newton--Cotes of order zero\<close>

text \<open>
  Claim C10.  \<open>NewtonCotesClosed(0)\<close> divides the lattice index \<open>0\<close> by \<open>0.0\<close>:
  its single point has the three coordinates \<open>nan\<close>, and its weights are \<open>[1]\<close>.
\<close>

theorem newton_cotes_closed_0:
  "NewtonCotesClosed 0 = \<lparr>nc_points = [(NaN, NaN, NaN)], nc_weights = [1], nc_degree = 0\<rparr>"
  by (simp add: NewtonCotesClosed_def newton_cotes_def lattice_def closed_fun_def np_div_def
      ones_def)

section \<open>The degree-3 construction on the n-cube\<close>

lemma concat_trig_rows:
  "length (concat (map (trig_pair n) ks)) = 2 * length ks
   \<and> (\<forall>r \<in> set (concat (map (trig_pair n) ks)). length r = 2 * n)"
  by (induction ks) (simp_all add: trig_pair_def)

lemma n2_div: "(if n mod 2 = 0 then n div 2 else (n - 1) div 2) = n div (2::nat)"
  by (cases "n mod 2 = 0") (simp, presburger)

lemma stacked_rows_eq:
  "stacked_rows n =
     concat (map (trig_pair n) [1..<n div 2 + 1]) @ (if odd n then [sqrt3pm n] else [])"
  by (simp add: stacked_rows_def n2_div Let_def odd_iff_mod_2_eq_one)

lemma stacked_rows_length: "length (stacked_rows n) = n"
  unfolding stacked_rows_eq using concat_trig_rows [of n "[1..<n div 2 + 1]"]
  by (cases "odd n") (auto elim: oddE)

lemma stacked_rows_row: "r \<in> set (stacked_rows n) \<Longrightarrow> length r = 2 * n"
  unfolding stacked_rows_eq using concat_trig_rows [of n "[1..<n div 2 + 1]"]
  by (auto simp add: sqrt3pm_def split: if_splits)

lemma transpose_stacked:
  "transpose (stacked_rows n) =
     map (\<lambda>i. map (\<lambda>j. stacked_rows n ! j ! i) [0..<n]) [0..<2 * n]"
proof -
  have "transpose (stacked_rows n)
      = map (\<lambda>i. map (\<lambda>j. stacked_rows n ! j ! i) [0..<length (stacked_rows n)]) [0..<2 * n]"
  proof (rule transpose_rectangle)
    assume "stacked_rows n = []"
    then have "length (stacked_rows n) = 0" by simp
    then show "2 * n = 0" by (simp add: stacked_rows_length)
  next
    fix i assume "i < length (stacked_rows n)"
    then show "length (stacked_rows n ! i) = 2 * n"
      by (intro stacked_rows_row nth_mem)
  qed
  then show ?thesis by (simp add: stacked_rows_length)
qed

lemma sqrt3pm_eq:
  "sqrt3pm n = map (\<lambda>i. if odd i then - (1 / sqrt 3) else 1 / sqrt 3) [0..<2 * n]"
  by (simp add: sqrt3pm_def odd_iff_mod_2_eq_one)

lemma stroud_1957_3_result:
  assumes "1 \<le> n"
  shows "stroud_1957_3 n = Inr \<lparr>cube_name = ''Stroud 1957-3'', cube_dim = n,
           cube_weights = replicate (2 * n) (2 ^ n / real (2 * n)),
           cube_points = transpose (stacked_rows n), cube_degree = 3\<rparr>"
proof -
  have ne: "stacked_rows n \<noteq> []"
    using assms stacked_rows_length [of n] by auto
  have len: "length (transpose (stacked_rows n)) = 2 * n"
    by (simp add: transpose_stacked)
  show ?thesis
    using ne len by (simp add: stroud_1957_3_def Let_def)
qed

lemma trig_pair_entry:
  assumes "p < 2 * n"
  shows "trig_pair n k ! 0 ! p = sqrt (2 / 3) * cos ((2 * real k - 1) * real (p + 1) * pi / real n)"
    and "trig_pair n k ! 1 ! p = sqrt (2 / 3) * sin ((2 * real k - 1) * real (p + 1) * pi / real n)"
  using assms by (simp_all add: trig_pair_def nth_append del: upt_Suc)

lemma concat_pairs_nth:
  assumes "\<And>k. length (f k) = 2" "q < 2 * length ks"
  shows "concat (map f ks) ! q = f (ks ! (q div 2)) ! (q mod 2)"
  using assms(2)
proof (induction ks arbitrary: q)
  case Nil
  then show ?case by simp
next
  case (Cons k ks)
  show ?case
  proof (cases "q < 2")
    case True
    then have "q div 2 = 0" "q mod 2 = q"
      by simp_all
    then show ?thesis
      using True by (simp add: nth_append assms(1))
  next
    case False
    then obtain q' where q: "q = q' + 2"
      by (metis add.commute le_Suc_ex not_less)
    with Cons.prems have "q' < 2 * length ks"
      by simp
    from Cons.IH [OF this] show ?thesis
      by (simp add: q nth_append assms(1))
  qed
qed

lemma concat_trig_nth:
  assumes "q < 2 * m"
  shows "concat (map (trig_pair n) [1..<m + 1]) ! q = trig_pair n (q div 2 + 1) ! (q mod 2)"
proof -
  have "q div 2 < m"
    using assms by simp
  then have "[1..<m + 1] ! (q div 2) = q div 2 + 1"
    by (simp del: upt_Suc)
  moreover have "concat (map (trig_pair n) [1..<m + 1]) ! q
      = trig_pair n ([1..<m + 1] ! (q div 2)) ! (q mod 2)"
    using assms by (intro concat_pairs_nth) (simp_all add: trig_pair_def del: upt_Suc)
  ultimately show ?thesis
    by (simp only:)
qed

lemma stacked_rows_entry:
  assumes "p < 2 * n" "q < n"
  shows "stacked_rows n ! q ! p =
     (if q < 2 * (n div 2)
      then (if even q
            then sqrt (2 / 3) * cos ((2 * real (q div 2 + 1) - 1) * real (p + 1) * pi / real n)
            else sqrt (2 / 3) * sin ((2 * real (q div 2 + 1) - 1) * real (p + 1) * pi / real n))
      else (if odd p then - (1 / sqrt 3) else 1 / sqrt 3))"
proof -
  have len: "length (concat (map (trig_pair n) [1..<n div 2 + 1])) = 2 * (n div 2)"
    using concat_trig_rows [of n "[1..<n div 2 + 1]"] by simp
  show ?thesis
  proof (cases "q < 2 * (n div 2)")
    case True
    then have "stacked_rows n ! q = trig_pair n (q div 2 + 1) ! (q mod 2)"
      unfolding stacked_rows_eq using len concat_trig_nth [OF True, of n]
      by (simp add: nth_append del: upt_Suc)
    then show ?thesis
      using True assms(1) trig_pair_entry [OF assms(1), of "q div 2 + 1"]
      by (cases "even q") (auto simp add: odd_iff_mod_2_eq_one even_iff_mod_2_eq_zero)
  next
    case False
    with assms(2) have odd: "odd n" and q: "q = 2 * (n div 2)"
      by presburger+
    then have "stacked_rows n ! q = sqrt3pm n"
      unfolding stacked_rows_eq using len by (simp add: nth_append del: upt_Suc)
    then show ?thesis
      using False assms(1) by (simp add: sqrt3pm_eq)
  qed
qed

text \<open>
  Claim C8.  For \<open>n \<ge> 1\<close>, \<open>stroud_1957_3(n)\<close> stacks the cosine and sine rows
  of \<open>floor(n/2)\<close> coordinate planes and, exactly when \<open>n\<close> is odd, one more row
  of \<open>2n\<close> entries \<open>1/sqrt(3)\<close> whose entries at odd positions are negated; its
  points are the columns of that array.  There are \<open>2n\<close> points of \<open>n\<close>
  coordinates, each of weight \<open>2^n/(2n)\<close>, for even and for odd \<open>n\<close>.  Every
  coordinate is given in closed form: counting from \<open>0\<close>, coordinate \<open>q\<close> of point
  \<open>p\<close> is, for \<open>q < 2 floor(n/2)\<close> and \<open>k = q div 2 + 1\<close>,
  \<open>sqrt(2/3) cos((2k - 1)(p + 1) pi / n)\<close> when \<open>q\<close> is even and
  \<open>sqrt(2/3) sin((2k - 1)(p + 1) pi / n)\<close> when \<open>q\<close> is odd; the remaining coordinate
  \<open>q = n - 1\<close> of an odd \<open>n\<close> is \<open>1/sqrt(3)\<close> for even \<open>p\<close> and \<open>-1/sqrt(3)\<close> for
  odd \<open>p\<close>.
\<close>

theorem stroud_1957_3_structure:
  assumes "1 \<le> n"
  shows "\<exists>sch. stroud_1957_3 n = Inr sch
     \<and> cube_points sch = transpose (stacked_rows n)
     \<and> stacked_rows n = concat (map (trig_pair n) [1..<n div 2 + 1])
          @ (if odd n
             then [map (\<lambda>i. if odd i then - (1 / sqrt 3) else 1 / sqrt 3) [0..<2 * n]]
             else [])
     \<and> length (map (trig_pair n) [1..<n div 2 + 1]) = n div 2
     \<and> length (cube_points sch) = 2 * n
     \<and> (\<forall>p \<in> set (cube_points sch). length p = n)
     \<and> cube_weights sch = replicate (2 * n) (2 ^ n / real (2 * n))
     \<and> (\<forall>p < 2 * n. \<forall>q < n. cube_points sch ! p ! q =
          (if q < 2 * (n div 2)
           then (if even q
                 then sqrt (2 / 3)
                      * cos ((2 * real (q div 2 + 1) - 1) * real (p + 1) * pi / real n)
                 else sqrt (2 / 3)
                      * sin ((2 * real (q div 2 + 1) - 1) * real (p + 1) * pi / real n))
           else (if odd p then - (1 / sqrt 3) else 1 / sqrt 3)))
     \<and> (odd n \<longleftrightarrow> 2 * (n div 2) < n)"
proof -
  have len: "length (transpose (stacked_rows n)) = 2 * n"
    by (simp add: transpose_stacked)
  have rows: "\<forall>p \<in> set (transpose (stacked_rows n)). length p = n"
    by (auto simp add: transpose_stacked)
  have entries: "\<forall>p < 2 * n. \<forall>q < n. transpose (stacked_rows n) ! p ! q =
          (if q < 2 * (n div 2)
           then (if even q
                 then sqrt (2 / 3)
                      * cos ((2 * real (q div 2 + 1) - 1) * real (p + 1) * pi / real n)
                 else sqrt (2 / 3)
                      * sin ((2 * real (q div 2 + 1) - 1) * real (p + 1) * pi / real n))
           else (if odd p then - (1 / sqrt 3) else 1 / sqrt 3))"
  proof (intro allI impI)
    fix p q assume pq: "p < 2 * n" "q < n"
    then have "transpose (stacked_rows n) ! p ! q = stacked_rows n ! q ! p"
      by (simp add: transpose_stacked)
    then show "transpose (stacked_rows n) ! p ! q =
          (if q < 2 * (n div 2)
           then (if even q
                 then sqrt (2 / 3)
                      * cos ((2 * real (q div 2 + 1) - 1) * real (p + 1) * pi / real n)
                 else sqrt (2 / 3)
                      * sin ((2 * real (q div 2 + 1) - 1) * real (p + 1) * pi / real n))
           else (if odd p then - (1 / sqrt 3) else 1 / sqrt 3))"
      by (simp only: stacked_rows_entry [OF pq])
  qed
  have parity: "odd n \<longleftrightarrow> 2 * (n div 2) < n"
    by presburger
  have res: "stroud_1957_3 n = Inr \<lparr>cube_name = ''Stroud 1957-3'', cube_dim = n,
           cube_weights = replicate (2 * n) (2 ^ n / real (2 * n)),
           cube_points = transpose (stacked_rows n), cube_degree = 3\<rparr>"
    by (rule stroud_1957_3_result [OF assms])
  have eq: "stacked_rows n = concat (map (trig_pair n) [1..<n div 2 + 1])
          @ (if odd n
             then [map (\<lambda>i. if odd i then - (1 / sqrt 3) else 1 / sqrt 3) [0..<2 * n]]
             else [])"
    using stacked_rows_eq [of n] sqrt3pm_eq [of n] by simp
  have cnt: "length (map (trig_pair n) [1..<n div 2 + 1]) = n div 2"
    by simp
  show ?thesis
    unfolding res
    by (intro exI [of _ "\<lparr>cube_name = ''Stroud 1957-3'', cube_dim = n,
           cube_weights = replicate (2 * n) (2 ^ n / real (2 * n)),
           cube_points = transpose (stacked_rows n), cube_degree = 3\<rparr>"] conjI refl)
      (simp_all only: ncube_scheme.simps len eq [symmetric] cnt parity [symmetric],
        rule rows, rule entries)
qed

theorem stroud_1957_3_structure_witness:
  "(1::nat) \<le> 3
   \<and> (\<exists>sch. stroud_1957_3 3 = Inr sch
        \<and> length (cube_points sch) = 6
        \<and> (\<forall>p \<in> set (cube_points sch). length p = 3)
        \<and> cube_weights sch = replicate 6 (8 / 6)
        \<and> cube_points sch ! 0 ! 0 = sqrt (2 / 3) * cos (pi / 3)
        \<and> cube_points sch ! 0 ! 1 = sqrt (2 / 3) * sin (pi / 3)
        \<and> cube_points sch ! 2 ! 0 = - sqrt (2 / 3)
        \<and> cube_points sch ! 0 ! 2 = 1 / sqrt 3
        \<and> cube_points sch ! 1 ! 2 = - (1 / sqrt 3))"
proof -
  have h: "(1::nat) \<le> 3"
    by simp
  from stroud_1957_3_structure [OF h] obtain sch where sch:
    "stroud_1957_3 3 = Inr sch" "length (cube_points sch) = 2 * 3"
    "\<forall>p \<in> set (cube_points sch). length p = 3"
    "cube_weights sch = replicate (2 * 3) (2 ^ 3 / real (2 * 3))"
    and entries: "\<forall>p < 2 * 3. \<forall>q < 3. cube_points sch ! p ! q =
          (if q < 2 * (3 div 2)
           then (if even q
                 then sqrt (2 / 3)
                      * cos ((2 * real (q div 2 + 1) - 1) * real (p + 1) * pi / real 3)
                 else sqrt (2 / 3)
                      * sin ((2 * real (q div 2 + 1) - 1) * real (p + 1) * pi / real 3))
           else (if odd p then - (1 / sqrt 3) else 1 / sqrt 3))"
    by blast
  have e00: "cube_points sch ! 0 ! 0 = sqrt (2 / 3) * cos (pi / 3)"
    using entries [rule_format, of 0 0] by simp
  have e01: "cube_points sch ! 0 ! 1 = sqrt (2 / 3) * sin (pi / 3)"
    using entries [rule_format, of 0 1] by simp
  have e20: "cube_points sch ! 2 ! 0 = - sqrt (2 / 3)"
    using entries [rule_format, of 2 0] by simp
  have e02: "cube_points sch ! 0 ! 2 = 1 / sqrt 3"
    using entries [rule_format, of 0 2] by simp
  have e12: "cube_points sch ! 1 ! 2 = - (1 / sqrt 3)"
    using entries [rule_format, of 1 2] by simp
  from sch e00 e01 e20 e02 e12 show ?thesis
    by (intro conjI exI [of _ sch]) simp_all
qed

section \<open>Sums of weights\<close>






subsection \<open>The tables, index by index\<close>











































subsection \<open>The two Liu--Vinokur rules with conjugate orbit parameters\<close>






subsection \<open>The families\<close>







subsection \<open>The n-cube builders\<close>






section \<open>Newton--Cotes weights\<close>

subsection \<open>Coefficient lists\<close>

lemma coeff_Nil [simp]: "coeff [] a = 0"
  by (simp add: coeff_def)

lemma coeff_Cons: "coeff (x # p) a = (if a = 0 then x else coeff p (a - 1))"
  by (cases a) (simp_all add: coeff_def)

lemma coeff_padd: "coeff (padd p q) a = coeff p a + coeff q a"
  by (induction p q arbitrary: a rule: padd.induct) (simp_all add: coeff_Cons)

lemma length_padd: "length (padd p q) = max (length p) (length q)"
  by (induction p q rule: padd.induct) simp_all

lemma coeff_pmul_linear:
  "coeff (pmul q [u, v]) a = u * coeff q a + v * (if a = 0 then 0 else coeff q (a - 1))"
proof (induction q arbitrary: a)
  case Nil
  show ?case by simp
next
  case (Cons x q)
  show ?case
  proof (cases a)
    case 0
    then show ?thesis by (simp add: coeff_padd coeff_Cons)
  next
    case (Suc a')
    then show ?thesis
      by (cases a') (simp_all add: coeff_padd coeff_Cons Cons.IH algebra_simps)
  qed
qed

lemma length_pmul_linear: "q \<noteq> [] \<Longrightarrow> length (pmul q [u, v]) = Suc (length q)"
proof (induction q)
  case Nil
  then show ?case by simp
next
  case (Cons x q)
  then show ?case by (cases "q = []") (simp_all add: length_padd)
qed

lemma foldl_pmul_linear_length:
  assumes "q \<noteq> []"
  shows "length (foldl pmul q (map (\<lambda>k. [u k, v k]) ks)) = length q + length ks"
proof (induction ks rule: rev_induct)
  case Nil
  show ?case by simp
next
  case (snoc k ks)
  from snoc assms have "foldl pmul q (map (\<lambda>k. [u k, v k]) ks) \<noteq> []"
    by (metis length_0_conv add_is_0)
  then show ?case
    by (simp add: length_pmul_linear snoc)
qed

lemma length_get_poly: "length (get_poly pf m n) = Suc m"
  using foldl_pmul_linear_length [of "[1]" "\<lambda>k. (0 - pf k n) / (pf m n - pf k n)"
      "\<lambda>k. 1 / (pf m n - pf k n)" "[0..<m]"]
  by (simp add: get_poly_def lagrange_factor_def)

lemma coeff_scaled_factors:
  "coeff (foldl pmul [1] (map (\<lambda>k. [u k / d k, v k / d k]) ks)) a
     = coeff (foldl pmul [1] (map (\<lambda>k. [u k, v k]) ks)) a / prod_list (map d ks)"
proof (induction ks arbitrary: a rule: rev_induct)
  case Nil
  show ?case by simp
next
  case (snoc k ks)
  show ?case
    by (simp add: coeff_pmul_linear snoc.IH add_divide_distrib)
qed

lemma prod_list_nodes:
  "prod_list (map (\<lambda>k. (real m - real k) / N) [0..<m]) = fact m / N ^ m"
proof (induction m)
  case 0
  show ?case by simp
next
  case (Suc m)
  have "[0..<Suc m] = 0 # map Suc [0..<m]"
    by (simp add: upt_conv_Cons map_Suc_upt del: upt_Suc)
  then have "prod_list (map (\<lambda>k. (real (Suc m) - real k) / N) [0..<Suc m])
      = (real (Suc m) / N) * prod_list (map (\<lambda>k. (real m - real k) / N) [0..<m])"
    by (simp add: comp_def del: upt_Suc)
  then show ?case
    unfolding Suc.IH by simp
qed

lemma coeff_monic_silvester:
  assumes "N \<noteq> 0"
  shows "coeff (foldl pmul [1] (map (\<lambda>k. [0 - (real k + c) / N, 1]) [0..<m])) a * N ^ m / fact m
       = silvester N c m a"
proof -
  define Q where "Q m a = coeff (foldl pmul [1] (map (\<lambda>k. [0 - (real k + c) / N, 1]) [0..<m])) a"
    for m a
  have Q0: "Q 0 a = (if a = 0 then 1 else 0)" for a
    by (simp add: Q_def coeff_Cons)
  have QS: "Q (Suc m) a = (0 - (real m + c) / N) * Q m a + (if a = 0 then 0 else Q m (a - 1))"
    for m a
    by (simp add: Q_def coeff_pmul_linear)
  have "Q m a * N ^ m / fact m = silvester N c m a"
  proof (induction m arbitrary: a)
    case 0
    show ?case by (simp add: Q0)
  next
    case (Suc m)
    have alg: "((0 - k / N) * x + y) * (N * P) / (m1 * F) = (N * (y * P / F) - k * (x * P / F)) / m1"
      if "F \<noteq> 0" "m1 \<noteq> 0" for k x y P F m1 :: real
      using that assms by (simp add: field_simps)
    define y where "y = (if a = 0 then 0 else Q m (a - 1))"
    have y: "(if a = 0 then 0 else silvester N c m (a - 1)) = y * N ^ m / fact m"
      by (simp add: y_def Suc.IH)
    have "Q (Suc m) a * N ^ Suc m / fact (Suc m)
        = ((0 - (real m + c) / N) * Q m a + y) * (N * N ^ m) / (real (Suc m) * fact m)"
      by (simp add: QS y_def)
    also have "\<dots> = (N * (y * N ^ m / fact m) - (real m + c) * (Q m a * N ^ m / fact m)) / real (Suc m)"
      by (rule alg) simp_all
    also have "\<dots> = silvester N c (Suc m) a"
      by (simp only: silvester.simps y Suc.IH)
    finally show ?case .
  qed
  then show ?thesis by (simp add: Q_def)
qed

subsection \<open>The polynomials of \<open>get_poly\<close>\<close>

lemma coeff_get_poly_nodes:
  assumes "N \<noteq> 0" and pf: "\<And>k. pf k n = (real k + c) / N"
  shows "coeff (get_poly pf m n) a = silvester N c m a"
proof -
  have d: "pf m n - pf k n = (real m - real k) / N" for k
    by (simp add: pf diff_divide_distrib [symmetric])
  have "coeff (get_poly pf m n) a
      = coeff (foldl pmul [1] (map (\<lambda>k. [(0 - (real k + c) / N) / ((real m - real k) / N),
                1 / ((real m - real k) / N)]) [0..<m])) a"
    unfolding get_poly_def lagrange_factor_def d by (simp only: pf)
  also have "\<dots> = coeff (foldl pmul [1] (map (\<lambda>k. [0 - (real k + c) / N, 1]) [0..<m])) a
      / prod_list (map (\<lambda>k. (real m - real k) / N) [0..<m])"
    by (rule coeff_scaled_factors)
  also have "\<dots> = coeff (foldl pmul [1] (map (\<lambda>k. [0 - (real k + c) / N, 1]) [0..<m])) a
      * N ^ m / fact m"
    by (simp add: prod_list_nodes)
  finally show ?thesis
    by (simp only: coeff_monic_silvester [OF assms(1)])
qed

text \<open>The values of the kinded coefficients are the coefficients computed
  with the values.\<close>

lemma val_arith:
  "val (x + y) = val x + val y" "val (x - y) = val x - val y" "val (x * y) = val x * val y"
  "val (x / y) = val x / val y" "val 0 = 0" "val 1 = 1"
  by (cases x; cases y;
      simp add: zero_pynum_def one_pynum_def of_rat_add of_rat_diff of_rat_mult of_rat_divide)+

lemma map_val_padd: "map val (padd p q) = padd (map val p) (map val q)"
  by (induction p q rule: padd.induct) (simp_all add: val_arith)

lemma map_val_pmul: "map val (pmul p q) = pmul (map val p) (map val q)"
  by (induction p) (simp_all add: map_val_padd val_arith comp_def)

lemma map_val_foldl_pmul:
  "map val (foldl pmul q fs) = foldl pmul (map val q) (map (map val) fs)"
  by (induction fs arbitrary: q) (simp_all add: map_val_pmul)

lemma map_val_get_poly:
  "map val (get_poly pf m n) = get_poly (\<lambda>k n. val (pf k n)) m n"
  by (simp add: get_poly_def lagrange_factor_def map_val_foldl_pmul val_arith comp_def)

lemma coeff_get_poly_closed:
  assumes "n \<noteq> 0"
  shows "coeff (map val (get_poly (on_int closed_fun) m n)) a = silvester (real n) 0 m a"
  unfolding map_val_get_poly using assms
  by (intro coeff_get_poly_nodes) (simp_all add: closed_fun_def float_of_def val_arith)

lemma coeff_get_poly_open:
  "coeff (map val (get_poly (on_int open_fun) m n)) a = silvester (real n + 4) 1 m a"
  unfolding map_val_get_poly
  by (intro coeff_get_poly_nodes)
     (simp_all add: open_fun_def float_of_def val_arith add.commute of_rat_add)

lemma silvester_degree: "m < a \<Longrightarrow> silvester N c m a = 0"
  by (induction m arbitrary: a) auto

subsection \<open>Sums over exponents\<close>

lemma pairing_scale: "pairing K f (\<lambda>a. x * g a) = x * pairing K f g"
  by (simp add: pairing_def sum_distrib_left mult_ac)

lemma pairing_add: "pairing K f (\<lambda>a. g a + h a) = pairing K f g + pairing K f h"
  by (simp add: pairing_def sum.distrib algebra_simps)

lemma pairing_diff: "pairing K f (\<lambda>a. g a - h a) = pairing K f g - pairing K f h"
  by (simp add: pairing_def sum_subtractf algebra_simps)

lemma pairing_divide: "pairing K f (\<lambda>a. g a / x) = pairing K f g / x"
  by (simp add: pairing_def sum_divide_distrib)

lemma pairing_shift:
  assumes "Suc m < K"
  shows "pairing K (silvester N c (Suc m)) g =
           (N * pairing K (silvester N c m) (\<lambda>a. g (Suc a))
             - (real m + c) * pairing K (silvester N c m) g) / real (Suc m)"
proof -
  obtain K' where K: "K = Suc K'" and m: "m < K'"
    using assms by (cases K) auto
  have shift: "(\<Sum>a<K. (if a = 0 then 0 else silvester N c m (a - 1)) * g a)
        = (\<Sum>a<K. silvester N c m a * g (Suc a))"
  proof -
    define h where "h a = (if a = 0 then 0 else silvester N c m (a - 1)) * g a" for a
    have "(\<Sum>a<Suc K'. h a) = h 0 + (\<Sum>a<K'. h (Suc a))"
      by (rule sum.lessThan_Suc_shift)
    then have "(\<Sum>a<Suc K'. (if a = 0 then 0 else silvester N c m (a - 1)) * g a)
        = (\<Sum>a<K'. silvester N c m a * g (Suc a))"
      by (simp add: h_def)
    also have "\<dots> = (\<Sum>a<Suc K'. silvester N c m a * g (Suc a))"
      using m by (simp add: silvester_degree)
    finally show ?thesis by (simp only: K)
  qed
  have "pairing K (silvester N c (Suc m)) g
      = (\<Sum>a<K. (N * ((if a = 0 then 0 else silvester N c m (a - 1)) * g a)
                  - (real m + c) * (silvester N c m a * g a)) / real (Suc m))"
    unfolding pairing_def by (rule sum.cong) (simp_all add: algebra_simps diff_divide_distrib)
  also have "\<dots> = (N * (\<Sum>a<K. (if a = 0 then 0 else silvester N c m (a - 1)) * g a)
                  - (real m + c) * (\<Sum>a<K. silvester N c m a * g a)) / real (Suc m)"
    by (simp only: sum_divide_distrib [symmetric] sum_subtractf sum_distrib_left)
  finally show ?thesis
    by (simp only: shift pairing_def)
qed

lemma phi_shift:
  "phi (Suc a) b c d + phi a (Suc b) c d + phi a b (Suc c) d + phi a b c (Suc d) = phi a b c d"
proof -
  define t where "t = a + b + c + d + 3"
  have e: "Suc a + b + c + d + 3 = Suc t" "a + Suc b + c + d + 3 = Suc t"
    "a + b + Suc c + d + 3 = Suc t" "a + b + c + Suc d + 3 = Suc t"
    by (simp_all add: t_def)
  define s :: real where "s = real (Suc t)"
  define X :: real where "X = fact t"
  define A :: real where "A = fact a"
  define B :: real where "B = fact b"
  define C :: real where "C = fact c"
  define D :: real where "D = fact d"
  have f: "fact (Suc t) = s * X"
    by (simp add: s_def X_def)
  have nz: "s \<noteq> 0" "X \<noteq> 0"
    by (simp_all add: s_def X_def del: of_nat_Suc)
  have split: "s = (real a + 1) + (real b + 1) + (real c + 1) + (real d + 1)"
    by (simp add: s_def t_def)
  have fs: "fact (Suc a) = (real a + 1) * A" "fact (Suc b) = (real b + 1) * B"
    "fact (Suc c) = (real c + 1) * C" "fact (Suc d) = (real d + 1) * D"
    by (simp_all add: A_def B_def C_def D_def algebra_simps)
  have "phi (Suc a) b c d + phi a (Suc b) c d + phi a b (Suc c) d + phi a b c (Suc d)
      = ((real a + 1) + (real b + 1) + (real c + 1) + (real d + 1)) * (A * B * C * D * 6) / (s * X)"
    unfolding phi_def e f fs A_def [symmetric] B_def [symmetric] C_def [symmetric] D_def [symmetric]
    using nz by (simp add: field_simps)
  also have "\<dots> = A * B * C * D * 6 / X"
    unfolding split [symmetric] using nz by simp
  finally show ?thesis
    by (simp add: phi_def A_def B_def C_def D_def X_def t_def)
qed

lemma pairing4_slot0:
  assumes "Suc i < K"
  shows "real (Suc i) * pairing4 K (silvester N c (Suc i)) f1 f2 f3 F
       = N * pairing4 K (silvester N c i) f1 f2 f3 (\<lambda>a. F (Suc a))
         - (real i + c) * pairing4 K (silvester N c i) f1 f2 f3 F"
  unfolding pairing4_def pairing_shift [OF assms] by simp

lemma pairing4_slot1:
  assumes "Suc j < K"
  shows "real (Suc j) * pairing4 K f0 (silvester N c (Suc j)) f2 f3 F
       = N * pairing4 K f0 (silvester N c j) f2 f3 (\<lambda>a b. F a (Suc b))
         - (real j + c) * pairing4 K f0 (silvester N c j) f2 f3 F"
  unfolding pairing4_def pairing_shift [OF assms]
  by (simp add: pairing_divide pairing_diff pairing_scale)

lemma pairing4_slot2:
  assumes "Suc k < K"
  shows "real (Suc k) * pairing4 K f0 f1 (silvester N c (Suc k)) f3 F
       = N * pairing4 K f0 f1 (silvester N c k) f3 (\<lambda>a b c. F a b (Suc c))
         - (real k + c) * pairing4 K f0 f1 (silvester N c k) f3 F"
  unfolding pairing4_def pairing_shift [OF assms]
  by (simp add: pairing_divide pairing_diff pairing_scale)

lemma pairing4_slot3:
  assumes "Suc l < K"
  shows "real (Suc l) * pairing4 K f0 f1 f2 (silvester N c (Suc l)) F
       = N * pairing4 K f0 f1 f2 (silvester N c l) (\<lambda>a b c d. F a b c (Suc d))
         - (real l + c) * pairing4 K f0 f1 f2 (silvester N c l) F"
  unfolding pairing4_def pairing_shift [OF assms]
  by (simp add: pairing_divide pairing_diff pairing_scale)

lemma pairing4_add:
  "pairing4 K f0 f1 f2 f3 (\<lambda>a b c d. F a b c d + H a b c d)
     = pairing4 K f0 f1 f2 f3 F + pairing4 K f0 f1 f2 f3 H"
  by (simp add: pairing4_def pairing_add)

lemma pairing4_phi_shifts:
  "pairing4 K f0 f1 f2 f3 (\<lambda>a. phi (Suc a))
   + pairing4 K f0 f1 f2 f3 (\<lambda>a b. phi a (Suc b))
   + pairing4 K f0 f1 f2 f3 (\<lambda>a b c. phi a b (Suc c))
   + pairing4 K f0 f1 f2 f3 (\<lambda>a b c d. phi a b c (Suc d))
   = pairing4 K f0 f1 f2 f3 phi"
proof -
  have "pairing4 K f0 f1 f2 f3 phi
      = pairing4 K f0 f1 f2 f3
          (\<lambda>a b c d. phi (Suc a) b c d + phi a (Suc b) c d + phi a b (Suc c) d + phi a b c (Suc d))"
    by (simp only: phi_shift)
  then show ?thesis
    by (simp only: pairing4_add)
qed

lemma basis_integral_step:
  assumes "Suc i < K" "Suc j < K" "Suc k < K" "Suc l < K"
  shows "real (Suc i) * basis_integral N c K (Suc i, j, k, l)
       + real (Suc j) * basis_integral N c K (i, Suc j, k, l)
       + real (Suc k) * basis_integral N c K (i, j, Suc k, l)
       + real (Suc l) * basis_integral N c K (i, j, k, Suc l)
       = (N - 4 * c - real (i + j + k + l)) * basis_integral N c K (i, j, k, l)"
proof -
  define f0 where "f0 = silvester N c i"
  define f1 where "f1 = silvester N c j"
  define f2 where "f2 = silvester N c k"
  define f3 where "f3 = silvester N c l"
  define P0 where "P0 = pairing4 K f0 f1 f2 f3 (\<lambda>a. phi (Suc a))"
  define P1 where "P1 = pairing4 K f0 f1 f2 f3 (\<lambda>a b. phi a (Suc b))"
  define P2 where "P2 = pairing4 K f0 f1 f2 f3 (\<lambda>a b c. phi a b (Suc c))"
  define P3 where "P3 = pairing4 K f0 f1 f2 f3 (\<lambda>a b c d. phi a b c (Suc d))"
  define P where "P = pairing4 K f0 f1 f2 f3 phi"
  have s: "P0 + P1 + P2 + P3 = P"
    unfolding P0_def P1_def P2_def P3_def P_def by (rule pairing4_phi_shifts)
  have e: "real (Suc i) * basis_integral N c K (Suc i, j, k, l) = N * P0 - (real i + c) * P"
    "real (Suc j) * basis_integral N c K (i, Suc j, k, l) = N * P1 - (real j + c) * P"
    "real (Suc k) * basis_integral N c K (i, j, Suc k, l) = N * P2 - (real k + c) * P"
    "real (Suc l) * basis_integral N c K (i, j, k, Suc l) = N * P3 - (real l + c) * P"
    unfolding basis_integral_def prod.case P0_def P1_def P2_def P3_def P_def
      f0_def f1_def f2_def f3_def
    by (rule pairing4_slot0 [OF assms(1)] pairing4_slot1 [OF assms(2)]
        pairing4_slot2 [OF assms(3)] pairing4_slot3 [OF assms(4)])+
  have b: "basis_integral N c K (i, j, k, l) = P"
    by (simp add: basis_integral_def P_def f0_def f1_def f2_def f3_def)
  have "(N * P0 - (real i + c) * P) + (N * P1 - (real j + c) * P)
      + (N * P2 - (real k + c) * P) + (N * P3 - (real l + c) * P)
      = N * (P0 + P1 + P2 + P3) - (4 * c + real (i + j + k + l)) * P"
    by (simp add: algebra_simps)
  also have "\<dots> = (N - 4 * c - real (i + j + k + l)) * P"
    unfolding s by (simp add: algebra_simps)
  finally show ?thesis
    by (simp only: e b)
qed

lemma sum_list_concat_upt:
  "sum_list (map f (concat (map g [0..<n]))) = (\<Sum>a<n. sum_list (map f (g a)))"
  by (induction n) simp_all

lemma sum_list_map_upt:
  "sum_list (map f (map g [0..<n])) = (\<Sum>a<n. f (g a))"
  by (induction n) simp_all

lemma monomial_integral_phi:
  "monomial_integral ((a, b, c, d), co) = val co * phi_wrapped a b c d"
  by (simp add: phi_wrapped_def)

lemma pairing_coeff:
  assumes "length p \<le> K"
  shows "pairing K (coeff (map val p)) g = (\<Sum>a<length p. val (p ! a) * g a)"
proof -
  have "(\<Sum>a<K. coeff (map val p) a * g a) = (\<Sum>a<length p. coeff (map val p) a * g a)"
    using assms by (intro sum.mono_neutral_right) (auto simp add: coeff_def)
  also have "\<dots> = (\<Sum>a<length p. val (p ! a) * g a)"
    by (intro sum.cong) (simp_all add: coeff_def)
  finally show ?thesis
    by (simp add: pairing_def)
qed

lemma terms4_pairing4:
  assumes "length p0 \<le> K" "length p1 \<le> K" "length p2 \<le> K" "length p3 \<le> K"
  shows "sum_list (map monomial_integral (terms4 p0 p1 p2 p3))
       = pairing4 K (coeff (map val p0)) (coeff (map val p1)) (coeff (map val p2))
           (coeff (map val p3)) phi_wrapped"
proof -
  have "sum_list (map monomial_integral (terms4 p0 p1 p2 p3))
      = (\<Sum>a<length p0. \<Sum>b<length p1. \<Sum>c<length p2. \<Sum>d<length p3.
           val (p0 ! a * p1 ! b * p2 ! c * p3 ! d) * phi_wrapped a b c d)"
    unfolding terms4_def
    by (simp only: sum_list_concat_upt sum_list_map_upt monomial_integral_phi)
  also have "\<dots> = (\<Sum>a<length p0. val (p0 ! a) * (\<Sum>b<length p1. val (p1 ! b) *
           (\<Sum>c<length p2. val (p2 ! c) * (\<Sum>d<length p3. val (p3 ! d) * phi_wrapped a b c d))))"
    by (simp only: val_arith sum_distrib_left mult.assoc)
  finally show ?thesis
    unfolding pairing4_def
    by (simp only: pairing_coeff [OF assms(1)] pairing_coeff [OF assms(2)]
        pairing_coeff [OF assms(3)] pairing_coeff [OF assms(4)])
qed

text \<open>The weight that the code computes at a lattice index: the recursion's
  coefficients paired with the factors as numpy computes them.\<close>

lemma nc_weight_pairing4:
  assumes c: "\<And>m a. coeff (map val (get_poly pf m n)) a = silvester N c m a"
    and "i < K" "j < K" "k < K" "l < K"
  shows "nc_weight pf n (i, j, k, l)
       = pairing4 K (silvester N c i) (silvester N c j) (silvester N c k) (silvester N c l)
           phi_wrapped"
proof -
  have "nc_weight pf n (i, j, k, l)
      = pairing4 K (coeff (map val (get_poly pf i n))) (coeff (map val (get_poly pf j n)))
          (coeff (map val (get_poly pf k n))) (coeff (map val (get_poly pf l n))) phi_wrapped"
    unfolding nc_weight_def g_terms.simps using assms(2-)
    by (intro terms4_pairing4) (simp_all add: length_get_poly)
  then show ?thesis
    by (simp only: c [abs_def])
qed

subsection \<open>The product of factorials in 64 bits\<close>

lemma wrap_int64_id: "0 \<le> z \<Longrightarrow> z < 2 ^ 63 \<Longrightarrow> wrap_int64 z = z"
  by (simp add: wrap_int64_def)

lemma wrap_int64_le: "0 \<le> z \<Longrightarrow> wrap_int64 z \<le> z"
proof -
  assume "0 \<le> z"
  then have "(z + 2 ^ 63) mod 2 ^ 64 \<le> z + 2 ^ 63"
    by (intro zmod_le_nonneg_dividend) simp
  then show ?thesis
    by (simp add: wrap_int64_def)
qed

lemma upto_20_cases:
  "(x::nat) \<le> 20 \<Longrightarrow>
     x \<in> {0, 1, 2, 3, 4, 5, 6, 7, 8, 9, 10, 11, 12, 13, 14, 15, 16, 17, 18, 19, 20}"
  by (simp only: insert_iff empty_iff) presburger

lemma fact_pair_extreme:
  assumes "x \<le> 20"
  shows "(fact x * fact (min 20 (22 - x)) :: int) \<le> 2 * fact 20"
  using upto_20_cases [OF assms] by (elim insertE emptyE) (simp_all add: fact_numeral)

lemma fact_pair_bound:
  assumes "x \<le> 20" "y \<le> 20" "x + y \<le> 22"
  shows "(fact x * fact y :: int) \<le> 2 * fact 20"
proof -
  have "y \<le> min 20 (22 - x)"
    using assms by simp
  then have "(fact y :: int) \<le> fact (min 20 (22 - x))"
    by (rule fact_mono)
  then have "(fact x * fact y :: int) \<le> fact x * fact (min 20 (22 - x))"
    by (intro mult_left_mono) simp_all
  also have "\<dots> \<le> 2 * fact 20"
    by (rule fact_pair_extreme [OF assms(1)])
  finally show ?thesis .
qed

lemma fact_small: "n \<le> 1 \<Longrightarrow> fact n = (1::int)"
  by (cases n) simp_all

lemma fact_prod_le: "(fact a * fact b :: int) \<le> fact (a + b)"
proof -
  have "(fact a * fact b :: nat) dvd fact (a + b)"
    by (rule fact_fact_dvd_fact)
  then have "(fact a * fact b :: nat) \<le> fact (a + b)"
    by (rule dvd_imp_le) simp
  then have "int (fact a * fact b) \<le> int (fact (a + b))"
    by (simp only: of_nat_le_iff)
  then show ?thesis
    by simp
qed

lemma fact_four_bound:
  assumes "a \<le> 20" "b \<le> 20" "c \<le> 20" "d \<le> 20" "a + b + c + d \<le> 22"
  shows "(fact a * fact b * fact c * fact d :: int) \<le> 2 * fact 20"
proof -
  consider "21 \<le> a + b" | "21 \<le> c + d" | "a + b \<le> 20" "c + d \<le> 20"
    by linarith
  then show ?thesis
  proof cases
    case 1
    with assms(5) have "c \<le> 1" "d \<le> 1" "a + b \<le> 22"
      by simp_all
    then show ?thesis
      using fact_pair_bound [OF assms(1,2)] by (simp add: fact_small)
  next
    case 2
    with assms(5) have "a \<le> 1" "b \<le> 1" "c + d \<le> 22"
      by simp_all
    then show ?thesis
      using fact_pair_bound [OF assms(3,4)] by (simp add: fact_small)
  next
    case 3
    have "(fact a * fact b) * (fact c * fact d) \<le> (fact (a + b) * fact (c + d) :: int)"
      by (intro mult_mono fact_prod_le) simp_all
    also have "\<dots> \<le> 2 * fact 20"
      using 3 assms(5) by (intro fact_pair_bound) simp_all
    finally show ?thesis
      by (simp only: mult.assoc)
  qed
qed

lemma fact_21_large: "21 \<le> n \<Longrightarrow> (2 ^ 63 :: int) \<le> fact n"
proof -
  assume "21 \<le> n"
  then have "(fact 21 :: int) \<le> fact n"
    by (rule fact_mono)
  moreover have "(2 ^ 63 :: int) \<le> fact 21"
    by (simp add: fact_numeral)
  ultimately show ?thesis
    by linarith
qed

lemma numpy_prod_exact:
  assumes "a + b + c + d \<le> 22"
  shows "numpy_prod [fact a, fact b, fact c, fact d] = fact a * fact b * fact c * fact d"
proof (cases "a \<le> 20 \<and> b \<le> 20 \<and> c \<le> 20 \<and> d \<le> 20")
  case True
  then have "(fact a * fact b * fact c * fact d :: int) \<le> 2 * fact 20"
    using assms by (intro fact_four_bound) simp_all
  also have "\<dots> < 2 ^ 63"
    by (simp add: fact_numeral)
  finally have "wrap_int64 (fact a * fact b * fact c * fact d) = fact a * fact b * fact c * fact d"
    by (intro wrap_int64_id) simp_all
  then show ?thesis
    by (simp add: numpy_prod_def mult.assoc)
next
  case False
  then have "\<not> list_all (\<lambda>x. - (2 ^ 63) \<le> x \<and> x < 2 ^ 63) [fact a, fact b, fact c, fact d :: int]"
    using fact_21_large [of a] fact_21_large [of b] fact_21_large [of c] fact_21_large [of d]
    by (auto simp add: not_le)
  then show ?thesis
    by (simp only: numpy_prod_def if_False prod_list.Cons prod_list.Nil mult_1_right mult.assoc)
qed

lemma numpy_prod_le:
  "numpy_prod [fact a, fact b, fact c, fact d] \<le> fact a * fact b * fact c * fact d"
proof -
  have "(0::int) \<le> fact a * fact b * fact c * fact d"
    by simp
  from wrap_int64_le [OF this] show ?thesis
    by (simp add: numpy_prod_def mult.assoc)
qed

lemma phi_wrapped_eq: "a + b + c + d \<le> 22 \<Longrightarrow> phi_wrapped a b c d = phi a b c d"
  by (simp add: phi_wrapped_def phi_def numpy_prod_exact)

lemma phi_wrapped_le: "phi_wrapped a b c d \<le> phi a b c d"
proof -
  have "(of_int (numpy_prod [fact a, fact b, fact c, fact d]) :: real)
      \<le> of_int (fact a * fact b * fact c * fact d)"
    by (simp only: of_int_le_iff numpy_prod_le)
  then have "(of_int (numpy_prod [fact a, fact b, fact c, fact d]) :: real)
      \<le> fact a * fact b * fact c * fact d"
    by simp
  then show ?thesis
    unfolding phi_wrapped_def phi_def
    by (intro divide_right_mono mult_right_mono) simp_all
qed

lemma numpy_prod_20_3:
  "numpy_prod [fact 20, fact 3, fact 0, fact 0] = - 3849332024649711616"
  by (simp add: numpy_prod_def wrap_int64_def fact_numeral)

lemma phi_wrapped_20_3_aux:
  "phi_wrapped 20 3 0 0 = of_int (numpy_prod [fact 20, fact 3, fact 0, fact 0]) * 6 / fact 26"
  unfolding phi_wrapped_def by simp

lemma phi_wrapped_20_3:
  "phi_wrapped 20 3 0 0 = - 3849332024649711616 * 6 / fact 26"
  unfolding phi_wrapped_20_3_aux numpy_prod_20_3 by simp

subsection \<open>Sums over the lattice\<close>

lemma finite_compositions: "finite (compositions n)"
proof (rule finite_subset)
  show "compositions n \<subseteq> {..n} \<times> {..n} \<times> {..n} \<times> {..n}"
    by (auto simp add: compositions_def)
qed simp

lemma lattice_sum: "sum_list (map G (lattice n)) = sum G (compositions n)"
proof -
  have "sum_list (map G (lattice n))
      = (\<Sum>i<n + 1. \<Sum>j<n + 1 - i. \<Sum>k<n + 1 - i - j. G (i, j, k, n - i - j - k))"
    unfolding lattice_def by (simp only: sum_list_concat_upt sum_list_map_upt)
  also have "\<dots> = (\<Sum>i<n + 1. \<Sum>(j, k)\<in>(SIGMA j:{..<n + 1 - i}. {..<n + 1 - i - j}).
                      G (i, j, k, n - i - j - k))"
    by (simp add: sum.Sigma)
  also have "\<dots> = (\<Sum>(i, j, k)\<in>(SIGMA i:{..<n + 1}. SIGMA j:{..<n + 1 - i}. {..<n + 1 - i - j}).
                      G (i, j, k, n - i - j - k))"
    by (subst sum.Sigma) (simp_all add: case_prod_unfold)
  also have "\<dots> = sum G (compositions n)"
    by (rule sum.reindex_bij_witness [where i = "\<lambda>(i, j, k, l). (i, j, k)"
          and j = "\<lambda>(i, j, k). (i, j, k, n - i - j - k)"])
       (auto simp add: compositions_def)
  finally show ?thesis .
qed

lemma compositions_slot0:
  "(\<Sum>(i, j, k, l)\<in>compositions (Suc n). real i * G (i, j, k, l))
     = (\<Sum>(i, j, k, l)\<in>compositions n. real (Suc i) * G (Suc i, j, k, l))"
proof -
  have "(\<Sum>(i, j, k, l)\<in>compositions (Suc n). real i * G (i, j, k, l))
      = (\<Sum>(i, j, k, l)\<in>{(i, j, k, l). (i, j, k, l) \<in> compositions (Suc n) \<and> 0 < i}.
           real i * G (i, j, k, l))"
    by (rule sum.mono_neutral_right) (auto simp add: finite_compositions)
  also have "\<dots> = (\<Sum>(i, j, k, l)\<in>compositions n. real (Suc i) * G (Suc i, j, k, l))"
    by (rule sum.reindex_bij_witness
          [where i = "\<lambda>(i, j, k, l). (Suc i, j, k, l)" and j = "\<lambda>(i, j, k, l). (i - 1, j, k, l)"])
       (auto simp add: compositions_def)
  finally show ?thesis .
qed

lemma compositions_slot1:
  "(\<Sum>(i, j, k, l)\<in>compositions (Suc n). real j * G (i, j, k, l))
     = (\<Sum>(i, j, k, l)\<in>compositions n. real (Suc j) * G (i, Suc j, k, l))"
proof -
  have "(\<Sum>(i, j, k, l)\<in>compositions (Suc n). real j * G (i, j, k, l))
      = (\<Sum>(i, j, k, l)\<in>{(i, j, k, l). (i, j, k, l) \<in> compositions (Suc n) \<and> 0 < j}.
           real j * G (i, j, k, l))"
    by (rule sum.mono_neutral_right) (auto simp add: finite_compositions)
  also have "\<dots> = (\<Sum>(i, j, k, l)\<in>compositions n. real (Suc j) * G (i, Suc j, k, l))"
    by (rule sum.reindex_bij_witness
          [where i = "\<lambda>(i, j, k, l). (i, Suc j, k, l)" and j = "\<lambda>(i, j, k, l). (i, j - 1, k, l)"])
       (auto simp add: compositions_def)
  finally show ?thesis .
qed

lemma compositions_slot2:
  "(\<Sum>(i, j, k, l)\<in>compositions (Suc n). real k * G (i, j, k, l))
     = (\<Sum>(i, j, k, l)\<in>compositions n. real (Suc k) * G (i, j, Suc k, l))"
proof -
  have "(\<Sum>(i, j, k, l)\<in>compositions (Suc n). real k * G (i, j, k, l))
      = (\<Sum>(i, j, k, l)\<in>{(i, j, k, l). (i, j, k, l) \<in> compositions (Suc n) \<and> 0 < k}.
           real k * G (i, j, k, l))"
    by (rule sum.mono_neutral_right) (auto simp add: finite_compositions)
  also have "\<dots> = (\<Sum>(i, j, k, l)\<in>compositions n. real (Suc k) * G (i, j, Suc k, l))"
    by (rule sum.reindex_bij_witness
          [where i = "\<lambda>(i, j, k, l). (i, j, Suc k, l)" and j = "\<lambda>(i, j, k, l). (i, j, k - 1, l)"])
       (auto simp add: compositions_def)
  finally show ?thesis .
qed

lemma compositions_slot3:
  "(\<Sum>(i, j, k, l)\<in>compositions (Suc n). real l * G (i, j, k, l))
     = (\<Sum>(i, j, k, l)\<in>compositions n. real (Suc l) * G (i, j, k, Suc l))"
proof -
  have "(\<Sum>(i, j, k, l)\<in>compositions (Suc n). real l * G (i, j, k, l))
      = (\<Sum>(i, j, k, l)\<in>{(i, j, k, l). (i, j, k, l) \<in> compositions (Suc n) \<and> 0 < l}.
           real l * G (i, j, k, l))"
    by (rule sum.mono_neutral_right) (auto simp add: finite_compositions)
  also have "\<dots> = (\<Sum>(i, j, k, l)\<in>compositions n. real (Suc l) * G (i, j, k, Suc l))"
    by (rule sum.reindex_bij_witness
          [where i = "\<lambda>(i, j, k, l). (i, j, k, Suc l)" and j = "\<lambda>(i, j, k, l). (i, j, k, l - 1)"])
       (auto simp add: compositions_def)
  finally show ?thesis .
qed

lemma compositions_weighted:
  "real (Suc n) * sum G (compositions (Suc n))
     = (\<Sum>(i, j, k, l)\<in>compositions n.
          real (Suc i) * G (Suc i, j, k, l) + real (Suc j) * G (i, Suc j, k, l)
          + real (Suc k) * G (i, j, Suc k, l) + real (Suc l) * G (i, j, k, Suc l))"
proof -
  have "real (Suc n) * sum G (compositions (Suc n))
      = (\<Sum>(i, j, k, l)\<in>compositions (Suc n).
           real i * G (i, j, k, l) + real j * G (i, j, k, l)
           + real k * G (i, j, k, l) + real l * G (i, j, k, l))"
    unfolding sum_distrib_left
  proof (rule sum.cong [OF refl], clarify)
    fix i j k l assume "(i, j, k, l) \<in> compositions (Suc n)"
    then have "Suc n = i + j + k + l"
      by (simp add: compositions_def)
    then have "real (Suc n) = real i + real j + real k + real l"
      by (simp only: of_nat_add)
    then show "real (Suc n) * G (i, j, k, l)
        = real i * G (i, j, k, l) + real j * G (i, j, k, l)
          + real k * G (i, j, k, l) + real l * G (i, j, k, l)"
      by (simp only: distrib_right)
  qed
  also have "\<dots> = (\<Sum>(i, j, k, l)\<in>compositions (Suc n). real i * G (i, j, k, l))
      + (\<Sum>(i, j, k, l)\<in>compositions (Suc n). real j * G (i, j, k, l))
      + (\<Sum>(i, j, k, l)\<in>compositions (Suc n). real k * G (i, j, k, l))
      + (\<Sum>(i, j, k, l)\<in>compositions (Suc n). real l * G (i, j, k, l))"
    by (simp add: case_prod_unfold sum.distrib)
  also have "\<dots> = (\<Sum>(i, j, k, l)\<in>compositions n. real (Suc i) * G (Suc i, j, k, l))
      + (\<Sum>(i, j, k, l)\<in>compositions n. real (Suc j) * G (i, Suc j, k, l))
      + (\<Sum>(i, j, k, l)\<in>compositions n. real (Suc k) * G (i, j, Suc k, l))
      + (\<Sum>(i, j, k, l)\<in>compositions n. real (Suc l) * G (i, j, k, Suc l))"
    by (simp only: compositions_slot0 compositions_slot1 compositions_slot2 compositions_slot3)
  also have "\<dots> = (\<Sum>(i, j, k, l)\<in>compositions n.
          real (Suc i) * G (Suc i, j, k, l) + real (Suc j) * G (i, Suc j, k, l)
          + real (Suc k) * G (i, j, Suc k, l) + real (Suc l) * G (i, j, k, Suc l))"
    by (simp add: case_prod_unfold sum.distrib)
  finally show ?thesis .
qed

lemma basis_integral_recurrence:
  assumes "Suc n < K"
  shows "real (Suc n) * sum (basis_integral N c K) (compositions (Suc n))
       = (N - 4 * c - real n) * sum (basis_integral N c K) (compositions n)"
proof -
  have "(\<Sum>(i, j, k, l)\<in>compositions n.
          real (Suc i) * basis_integral N c K (Suc i, j, k, l)
          + real (Suc j) * basis_integral N c K (i, Suc j, k, l)
          + real (Suc k) * basis_integral N c K (i, j, Suc k, l)
          + real (Suc l) * basis_integral N c K (i, j, k, Suc l))
      = (\<Sum>(i, j, k, l)\<in>compositions n. (N - 4 * c - real n) * basis_integral N c K (i, j, k, l))"
  proof (rule sum.cong [OF refl], clarify)
    fix i j k l assume "(i, j, k, l) \<in> compositions n"
    then have n: "i + j + k + l = n"
      by (simp add: compositions_def)
    with assms have "Suc i < K" "Suc j < K" "Suc k < K" "Suc l < K"
      by simp_all
    from basis_integral_step [OF this, of N c]
    show "real (Suc i) * basis_integral N c K (Suc i, j, k, l)
          + real (Suc j) * basis_integral N c K (i, Suc j, k, l)
          + real (Suc k) * basis_integral N c K (i, j, Suc k, l)
          + real (Suc l) * basis_integral N c K (i, j, k, Suc l)
        = (N - 4 * c - real n) * basis_integral N c K (i, j, k, l)"
      by (simp only: n)
  qed
  also have "\<dots> = (N - 4 * c - real n) * sum (basis_integral N c K) (compositions n)"
    by (simp add: sum_distrib_left case_prod_unfold)
  finally show ?thesis
    by (simp only: compositions_weighted)
qed

subsection \<open>The total weight\<close>

lemma pairing_silvester_0: "0 < K \<Longrightarrow> pairing K (silvester N c 0) g = g 0"
proof -
  assume "0 < K"
  have "pairing K (silvester N c 0) g = (\<Sum>a<K. if a = 0 then g 0 else 0)"
    unfolding pairing_def by (rule sum.cong) simp_all
  also have "\<dots> = g 0"
    using \<open>0 < K\<close> by simp
  finally show ?thesis .
qed

lemma compositions_0: "compositions 0 = {(0, 0, 0, 0)}"
  by (auto simp add: compositions_def)

lemma basis_integral_total_0:
  assumes "0 < K"
  shows "sum (basis_integral N c K) (compositions 0) = 1"
  using assms
  by (simp add: compositions_0 basis_integral_def pairing4_def pairing_silvester_0 phi_def
      fact_numeral)

lemma basis_integral_total:
  assumes "N - 4 * c = real n" "m \<le> n"
  shows "sum (basis_integral N c (Suc n)) (compositions m) = real (n choose m)"
  using assms(2)
proof (induction m)
  case 0
  show ?case by (simp add: basis_integral_total_0)
next
  case (Suc m)
  then have m: "Suc m < Suc n" "m \<le> n" by simp_all
  have "real (Suc m) * sum (basis_integral N c (Suc n)) (compositions (Suc m))
      = (N - 4 * c - real m) * sum (basis_integral N c (Suc n)) (compositions m)"
    by (rule basis_integral_recurrence [OF m(1)])
  also have "\<dots> = real (n - m) * real (n choose m)"
    using m(2) by (simp add: assms(1) Suc.IH)
  also have "\<dots> = real (Suc m * (n choose Suc m))"
    by (simp only: of_nat_mult [symmetric] binomial_absorb_comp binomial_absorption)
  also have "\<dots> = real (Suc m) * real (n choose Suc m)"
    by (simp only: of_nat_mult)
  finally show ?case
    by (simp del: of_nat_Suc)
qed

subsection \<open>The weights with the wrapped products\<close>

lemma pairing_cong_support:
  assumes "\<And>a. f a \<noteq> 0 \<Longrightarrow> g a = h a"
  shows "pairing K f g = pairing K f h"
  unfolding pairing_def
proof (rule sum.cong [OF refl])
  fix a show "f a * g a = f a * h a"
    using assms [of a] by (cases "f a = 0") simp_all
qed

lemma pairing4_cong_support:
  assumes "\<And>a b c d. f0 a \<noteq> 0 \<Longrightarrow> f1 b \<noteq> 0 \<Longrightarrow> f2 c \<noteq> 0 \<Longrightarrow> f3 d \<noteq> 0
             \<Longrightarrow> F a b c d = G a b c d"
  shows "pairing4 K f0 f1 f2 f3 F = pairing4 K f0 f1 f2 f3 G"
  unfolding pairing4_def
  by (intro pairing_cong_support) (rule assms)

lemma pairing_if:
  "pairing K f (\<lambda>a. if P then g a else 0) = (if P then pairing K f g else 0)"
  by (simp add: pairing_def)

lemma pairing_point:
  assumes "i < K"
  shows "pairing K f (\<lambda>a. if a = i then x else 0) = f i * x"
proof -
  have "pairing K f (\<lambda>a. if a = i then x else 0) = (\<Sum>a<K. if a = i then f i * x else 0)"
    unfolding pairing_def by (rule sum.cong) simp_all
  also have "\<dots> = f i * x"
    using assms by simp
  finally show ?thesis .
qed

lemma pairing4_point:
  assumes "i < K" "j < K" "k < K" "l < K"
  shows "pairing4 K f0 f1 f2 f3
           (\<lambda>a b c d. if a = i then (if b = j then (if c = k then (if d = l then x else 0)
              else 0) else 0) else 0)
       = f0 i * (f1 j * (f2 k * (f3 l * x)))"
proof -
  have 3: "\<And>a b c. pairing K f3 (\<lambda>d. if a = i then (if b = j then (if c = k then
              (if d = l then x else 0) else 0) else 0) else 0)
       = (if a = i then (if b = j then (if c = k then f3 l * x else 0) else 0) else 0)"
    by (simp add: pairing_if pairing_point [OF assms(4)])
  have 2: "\<And>a b. pairing K f2 (\<lambda>c. if a = i then (if b = j then (if c = k then f3 l * x else 0)
              else 0) else 0)
       = (if a = i then (if b = j then f2 k * (f3 l * x) else 0) else 0)"
    by (simp add: pairing_if pairing_point [OF assms(3)])
  have 1: "\<And>a. pairing K f1 (\<lambda>b. if a = i then (if b = j then f2 k * (f3 l * x) else 0) else 0)
       = (if a = i then f1 j * (f2 k * (f3 l * x)) else 0)"
    by (simp add: pairing_if pairing_point [OF assms(2)])
  show ?thesis
    unfolding pairing4_def
    by (simp only: 3 2 1 pairing_point [OF assms(1)])
qed

lemma silvester_top: "silvester N c m m = N ^ m / fact m"
  by (induction m) (simp_all add: silvester_degree)

lemma silvester_support: "silvester N c m a \<noteq> 0 \<Longrightarrow> a \<le> m"
  using silvester_degree [of m a N c] by (cases "a \<le> m") simp_all

lemma wrapped_pairing4:
  assumes "i + j + k + l \<le> 23" "i < K" "j < K" "k < K" "l < K"
  shows "pairing4 K (silvester N c i) (silvester N c j) (silvester N c k) (silvester N c l)
           phi_wrapped
       = basis_integral N c K (i, j, k, l) + wrap_defect N (i, j, k, l)"
proof -
  define x where "x = phi_wrapped i j k l - phi i j k l"
  define G where "G = (\<lambda>a b c d. if a = i then (if b = j then (if c = k then
                         (if d = l then x else 0) else 0) else 0) else 0)"
  have "pairing4 K (silvester N c i) (silvester N c j) (silvester N c k) (silvester N c l)
           phi_wrapped
      = pairing4 K (silvester N c i) (silvester N c j) (silvester N c k) (silvester N c l)
           (\<lambda>a b c d. phi a b c d + G a b c d)"
  proof (rule pairing4_cong_support
      [where F = phi_wrapped and G = "\<lambda>a b c d. phi a b c d + G a b c d"])
    fix a b e d
    assume "silvester N c i a \<noteq> 0" "silvester N c j b \<noteq> 0"
      "silvester N c k e \<noteq> 0" "silvester N c l d \<noteq> 0"
    then have le: "a \<le> i" "b \<le> j" "e \<le> k" "d \<le> l"
      by (simp_all add: silvester_support)
    show "phi_wrapped a b e d = phi a b e d + G a b e d"
    proof (cases "a = i \<and> b = j \<and> e = k \<and> d = l")
      case True
      then show ?thesis
        by (simp add: G_def x_def)
    next
      case False
      with le assms(1) have "a + b + e + d \<le> 22"
        by linarith
      then have "phi_wrapped a b e d = phi a b e d"
        by (rule phi_wrapped_eq)
      moreover have "G a b e d = 0"
        using False by (auto simp add: G_def)
      ultimately show ?thesis
        by simp
    qed
  qed
  also have "\<dots> = basis_integral N c K (i, j, k, l)
      + pairing4 K (silvester N c i) (silvester N c j) (silvester N c k) (silvester N c l) G"
    by (simp only: pairing4_add basis_integral_def prod.case)
  also have "pairing4 K (silvester N c i) (silvester N c j) (silvester N c k) (silvester N c l) G
      = wrap_defect N (i, j, k, l)"
    unfolding G_def
    by (simp only: pairing4_point [OF assms(2-5)] silvester_top wrap_defect_def prod.case x_def)
  finally show ?thesis .
qed

lemma wrap_defect_nonpos: "0 \<le> N \<Longrightarrow> wrap_defect N idx \<le> 0"
proof -
  assume N: "0 \<le> N"
  obtain i j k l where idx: "idx = (i, j, k, l)"
    by (cases idx) auto
  have "phi_wrapped i j k l - phi i j k l \<le> 0"
    using phi_wrapped_le [of i j k l] by simp
  then show ?thesis
    unfolding idx wrap_defect_def prod.case using N
    by (intro mult_nonneg_nonpos divide_nonneg_nonneg zero_le_power) simp_all
qed

lemma wrap_defect_zero:
  assumes "idx \<in> compositions n" "n \<le> 22"
  shows "wrap_defect N idx = 0"
proof -
  obtain i j k l where idx: "idx = (i, j, k, l)"
    by (cases idx) auto
  with assms have "i + j + k + l \<le> 22"
    by (simp add: compositions_def)
  then show ?thesis
    by (simp add: idx wrap_defect_def phi_wrapped_eq)
qed

lemma newton_cotes_wrapped_sum:
  assumes coeffs: "\<And>m a. coeff (map val (get_poly (on_int pf) m n)) a = silvester N c m a"
    and N: "N - 4 * c = real n" and n: "n \<noteq> 0" "n \<le> 23"
  shows "sum_list (nc_weights (newton_cotes n pf)) = 1 + sum (wrap_defect N) (compositions n)"
proof -
  have "sum_list (nc_weights (newton_cotes n pf))
      = sum (nc_weight (on_int pf) n) (compositions n)"
    using n by (simp add: newton_cotes_def Let_def lattice_sum)
  also have "\<dots> = (\<Sum>x\<in>compositions n. basis_integral N c (Suc n) x + wrap_defect N x)"
  proof (rule sum.cong [OF refl])
    fix x assume x: "x \<in> compositions n"
    obtain i j k l where ijkl: "x = (i, j, k, l)"
      by (cases x) auto
    with x have b: "i < Suc n" "j < Suc n" "k < Suc n" "l < Suc n"
      and s: "i + j + k + l \<le> 23"
      using n(2) by (auto simp add: compositions_def)
    from nc_weight_pairing4 [of "on_int pf" n N c, OF coeffs b]
      wrapped_pairing4 [OF s b, of N c]
    show "nc_weight (on_int pf) n x = basis_integral N c (Suc n) x + wrap_defect N x"
      by (simp only: ijkl)
  qed
  also have "\<dots> = sum (basis_integral N c (Suc n)) (compositions n)
      + sum (wrap_defect N) (compositions n)"
    by (rule sum.distrib)
  also have "sum (basis_integral N c (Suc n)) (compositions n) = real (n choose n)"
    by (rule basis_integral_total [OF N order_refl])
  finally show ?thesis by simp
qed

lemma newton_cotes_sums_to_22:
  assumes "n \<le> 22"
  shows "sum_list (nc_weights (NewtonCotesClosed n)) = 1"
    and "sum_list (nc_weights (NewtonCotesOpen n)) = 1"
proof -
  have zero: "nc_weights (NewtonCotesClosed 0) = [1]" "nc_weights (NewtonCotesOpen 0) = [1]"
    by (simp_all add: NewtonCotesClosed_def NewtonCotesOpen_def newton_cotes_def ones_def
        lattice_def)
  have d: "sum (wrap_defect N) (compositions n) = 0" for N
    using assms by (intro sum.neutral ballI wrap_defect_zero)
  show "sum_list (nc_weights (NewtonCotesClosed n)) = 1"
  proof (cases "n = 0")
    case True
    then show ?thesis by (simp add: zero)
  next
    case False
    have "sum_list (nc_weights (newton_cotes n closed_fun))
        = 1 + sum (wrap_defect (real n)) (compositions n)"
      using assms
      by (intro newton_cotes_wrapped_sum [where c = 0]) (simp_all add: coeff_get_poly_closed False)
    then show ?thesis
      by (simp add: NewtonCotesClosed_def d)
  qed
  show "sum_list (nc_weights (NewtonCotesOpen n)) = 1"
  proof (cases "n = 0")
    case True
    then show ?thesis by (simp add: zero)
  next
    case False
    have "sum_list (nc_weights (newton_cotes n open_fun))
        = 1 + sum (wrap_defect (real n + 4)) (compositions n)"
      using assms
      by (intro newton_cotes_wrapped_sum [where c = 1]) (simp_all add: coeff_get_poly_open False)
    then show ?thesis
      by (simp add: NewtonCotesOpen_def d)
  qed
qed

lemma wrap_defect_20_3: "wrap_defect 23 (20, 3, 0, 0) < - 392569"
proof -
  have "phi 20 3 0 0 = fact 20 * 6 * 6 / fact 26"
    by (simp add: phi_def fact_numeral)
  then have "phi_wrapped 20 3 0 0 - phi 20 3 0 0 = - (2 ^ 64 * 6) / fact 26"
    by (simp add: phi_wrapped_20_3 fact_numeral)
  then show ?thesis
    by (simp add: wrap_defect_def fact_numeral)
qed

lemma newton_cotes_closed_23:
  "sum_list (nc_weights (NewtonCotesClosed 23)) < - 392568"
proof -
  have "sum_list (nc_weights (newton_cotes 23 closed_fun))
      = 1 + sum (wrap_defect (real 23)) (compositions 23)"
    by (intro newton_cotes_wrapped_sum [where c = 0]) (simp_all add: coeff_get_poly_closed)
  moreover have "sum (wrap_defect 23) (compositions 23) \<le> wrap_defect 23 (20, 3, 0, 0)"
  proof -
    have m: "(20, 3, 0, 0) \<in> compositions 23"
      by (simp add: compositions_def)
    have "sum (wrap_defect 23) (compositions 23)
        = wrap_defect 23 (20, 3, 0, 0)
          + sum (wrap_defect 23) (compositions 23 - {(20, 3, 0, 0)})"
      by (rule sum.remove [OF finite_compositions m])
    moreover have "sum (wrap_defect 23) (compositions 23 - {(20, 3, 0, 0)}) \<le> 0"
      by (intro sum_nonpos wrap_defect_nonpos) simp
    ultimately show ?thesis
      by linarith
  qed
  ultimately show ?thesis
    using wrap_defect_20_3 by (simp add: NewtonCotesClosed_def)
qed

text \<open>
  Claim C6.  The schemes of order \<open>0\<close> have one point and the single weight \<open>1\<close>,
  the volume to which the weights of every tetrahedron scheme are normalised.  For
  every order \<open>n \<le> 22\<close> the weights of \<open>NewtonCotesClosed(n)\<close> and of
  \<open>NewtonCotesOpen(n)\<close> sum to \<open>1\<close>, the floats read as reals.  Not so for every
  order: at order \<open>23\<close> the product \<open>20! 3!\<close> of the monomial \<open>t\<^sub>0\<^sup>2\<^sup>0 t\<^sub>1\<^sup>3\<close>
  exceeds \<open>2^63\<close>, \<open>numpy.prod\<close> returns \<open>-3849332024649711616\<close> for it, and the
  weights of \<open>NewtonCotesClosed(23)\<close> sum to less than \<open>-392568\<close>.
\<close>

theorem newton_cotes_weights:
  "nc_weights (NewtonCotesClosed 0) = [1]
   \<and> length (nc_points (NewtonCotesClosed 0)) = 1
   \<and> nc_weights (NewtonCotesOpen 0) = [1]
   \<and> length (nc_points (NewtonCotesOpen 0)) = 1
   \<and> (n \<le> 22 \<longrightarrow> sum_list (nc_weights (NewtonCotesClosed n)) = 1
                 \<and> sum_list (nc_weights (NewtonCotesOpen n)) = 1)
   \<and> numpy_prod [fact 20, fact 3, fact 0, fact 0] = - 3849332024649711616
   \<and> sum_list (nc_weights (NewtonCotesClosed 23)) < - 392568"
proof -
  have zero: "nc_weights (NewtonCotesClosed 0) = [1]" "nc_weights (NewtonCotesOpen 0) = [1]"
    "length (nc_points (NewtonCotesClosed 0)) = 1" "length (nc_points (NewtonCotesOpen 0)) = 1"
    by (simp_all add: NewtonCotesClosed_def NewtonCotesOpen_def newton_cotes_def ones_def
        lattice_def)
  from zero newton_cotes_sums_to_22 [of n] numpy_prod_20_3 newton_cotes_closed_23
  show ?thesis
    by blast
qed

theorem newton_cotes_weights_witness:
  "(5::nat) \<le> 22
   \<and> sum_list (nc_weights (NewtonCotesClosed 5)) = 1
   \<and> sum_list (nc_weights (NewtonCotesOpen 5)) = 1
   \<and> sum_list (nc_weights (NewtonCotesClosed 23)) < - 392568"
  using newton_cotes_weights [of 5] by simp

section \<open>The kind of the Newton--Cotes coefficients\<close>

lemma is_float_arith:
  "is_float x \<or> is_float y \<Longrightarrow> is_float (x + y)"
  "is_float x \<or> is_float y \<Longrightarrow> is_float (x - y)"
  "is_float x \<or> is_float y \<Longrightarrow> is_float (x * y)"
  "is_float x \<or> is_float y \<Longrightarrow> is_float (x / y)"
  by (cases x; cases y; simp)+

lemma padd_floats:
  "list_all is_float p \<Longrightarrow> list_all is_float q \<Longrightarrow> list_all is_float (padd p q)"
  by (induction p q rule: padd.induct) (simp_all add: is_float_arith)

lemma pmul_floats:
  assumes "q \<noteq> []" "list_all is_float q"
  shows "list_all is_float (pmul p q)"
proof (induction p)
  case Nil
  show ?case by simp
next
  case (Cons a p)
  obtain b q' where q: "q = b # q'"
    using assms(1) by (cases q) auto
  with assms(2) have b: "is_float b" "list_all is_float q'"
    by simp_all
  have "list_all is_float (map (\<lambda>b. a * b) q')"
    using b(2) by (induction q') (simp_all add: is_float_arith)
  then show ?case
    using Cons b(1) by (simp add: q is_float_arith padd_floats)
qed

lemma foldl_pmul_floats:
  assumes "list_all is_float q" "\<forall>f \<in> set fs. f \<noteq> [] \<and> list_all is_float f"
  shows "list_all is_float (foldl pmul q fs)"
  using assms by (induction fs arbitrary: q) (simp_all add: pmul_floats)

lemma lagrange_factor_floats:
  assumes "\<And>k. is_float (pf k n)"
  shows "lagrange_factor pf k m n \<noteq> [] \<and> list_all is_float (lagrange_factor pf k m n)"
  using assms by (simp add: lagrange_factor_def is_float_arith)

lemma get_poly_floats:
  assumes "\<And>k. is_float (pf k n)" "1 \<le> m"
  shows "list_all is_float (get_poly pf m n)"
proof -
  have "[0..<m] = 0 # [1..<m]"
    using assms(2) by (simp add: upt_conv_Cons)
  then have "get_poly pf m n
      = foldl pmul (pmul [1] (lagrange_factor pf 0 m n)) (map (\<lambda>k. lagrange_factor pf k m n) [1..<m])"
    by (simp add: get_poly_def)
  moreover have "list_all is_float (pmul [1] (lagrange_factor pf 0 m n))"
    using lagrange_factor_floats [of pf n 0 m, OF assms(1)] by (intro pmul_floats) simp_all
  ultimately show ?thesis
    using lagrange_factor_floats [of pf n _ m, OF assms(1)]
    by (simp add: foldl_pmul_floats)
qed

lemma terms4_floats:
  assumes "list_all is_float p0 \<or> list_all is_float p1 \<or> list_all is_float p2 \<or> list_all is_float p3"
  shows "list_all (\<lambda>(mono, co). is_float co) (terms4 p0 p1 p2 p3)"
  using assms
  by (auto simp add: terms4_def list_all_iff is_float_arith)

lemma terms4_nonempty:
  "p0 \<noteq> [] \<Longrightarrow> p1 \<noteq> [] \<Longrightarrow> p2 \<noteq> [] \<Longrightarrow> p3 \<noteq> [] \<Longrightarrow> terms4 p0 p1 p2 p3 \<noteq> []"
  by (cases p0; cases p1; cases p2; cases p3) (simp_all add: terms4_def upt_conv_Cons)

lemma lattice_member: "(i, j, k, l) \<in> set (lattice n) \<Longrightarrow> i + j + k + l = n"
  by (auto simp add: lattice_def)

lemma g_terms_floats:
  assumes pf: "\<And>k. is_float (pf k n)" and n: "1 \<le> n" and idx: "(i, j, k, l) \<in> set (lattice n)"
  shows "g_terms pf n (i, j, k, l) \<noteq> []
       \<and> list_all (\<lambda>(mono, co). is_float co) (g_terms pf n (i, j, k, l))"
proof -
  from lattice_member [OF idx] n have "1 \<le> i \<or> 1 \<le> j \<or> 1 \<le> k \<or> 1 \<le> l"
    by arith
  then have "list_all is_float (get_poly pf i n) \<or> list_all is_float (get_poly pf j n)
      \<or> list_all is_float (get_poly pf k n) \<or> list_all is_float (get_poly pf l n)"
    using get_poly_floats [of pf n, OF pf] by blast
  moreover have "get_poly pf m n \<noteq> []" for m
    using length_get_poly [of pf m n] by auto
  ultimately show ?thesis
    by (simp add: terms4_floats terms4_nonempty)
qed

text \<open>The kinds are not an artefact of the operations: with exact nodes the
  same polynomial algebra stays exact.\<close>

lemma exact_arith:
  "\<not> is_float x \<Longrightarrow> \<not> is_float y \<Longrightarrow> \<not> is_float (x + y)"
  "\<not> is_float x \<Longrightarrow> \<not> is_float y \<Longrightarrow> \<not> is_float (x - y)"
  "\<not> is_float x \<Longrightarrow> \<not> is_float y \<Longrightarrow> \<not> is_float (x * y)"
  "\<not> is_float x \<Longrightarrow> \<not> is_float y \<Longrightarrow> \<not> is_float (x / y)"
  "\<not> is_float 0" "\<not> is_float 1"
  by (cases x; cases y; simp add: zero_pynum_def one_pynum_def)+

lemma padd_exact:
  "list_all (\<lambda>c. \<not> is_float c) p \<Longrightarrow> list_all (\<lambda>c. \<not> is_float c) q
     \<Longrightarrow> list_all (\<lambda>c. \<not> is_float c) (padd p q)"
  by (induction p q rule: padd.induct) (simp_all add: exact_arith)

lemma pmul_exact:
  "list_all (\<lambda>c. \<not> is_float c) p \<Longrightarrow> list_all (\<lambda>c. \<not> is_float c) q
     \<Longrightarrow> list_all (\<lambda>c. \<not> is_float c) (pmul p q)"
proof (induction p)
  case Nil
  show ?case by simp
next
  case (Cons a p)
  have "list_all (\<lambda>c. \<not> is_float c) (map (\<lambda>b. a * b) r)"
    if "\<not> is_float a" "list_all (\<lambda>c. \<not> is_float c) r" for r
    using that by (induction r) (simp_all add: exact_arith)
  with Cons show ?case
    by (simp add: padd_exact exact_arith)
qed

lemma get_poly_exact:
  assumes "\<And>k. \<not> is_float (pf k n)"
  shows "list_all (\<lambda>c. \<not> is_float c) (get_poly pf m n)"
proof -
  have "list_all (\<lambda>c. \<not> is_float c) (foldl pmul q (map (\<lambda>k. lagrange_factor pf k m n) ks))"
    if "list_all (\<lambda>c. \<not> is_float c) q" for q ks
    using that assms
    by (induction ks arbitrary: q) (simp_all add: pmul_exact lagrange_factor_def exact_arith)
  then show ?thesis
    by (simp add: get_poly_def exact_arith)
qed

text \<open>
  Claim C7, as amended.  The node functions \<open>k / float(n)\<close> and
  \<open>(k+1) / float(n+4)\<close> return floats, so for every order \<open>n \<ge> 1\<close> and every
  lattice index the polynomial \<open>g\<close> has terms and every coefficient that enters
  the factorial sum is a float, for the closed and for the open variant.
\<close>

theorem coefficients_are_floats:
  assumes "1 \<le> n" "(i, j, k, l) \<in> set (lattice n)"
  shows "g_terms (on_int closed_fun) n (i, j, k, l) \<noteq> []
       \<and> list_all (\<lambda>(mono, co). is_float co) (g_terms (on_int closed_fun) n (i, j, k, l))
       \<and> g_terms (on_int open_fun) n (i, j, k, l) \<noteq> []
       \<and> list_all (\<lambda>(mono, co). is_float co) (g_terms (on_int open_fun) n (i, j, k, l))"
proof -
  have "is_float (on_int closed_fun k n)" "is_float (on_int open_fun k n)" for k
    by (simp_all add: closed_fun_def open_fun_def float_of_def)
  then show ?thesis
    using g_terms_floats [OF _ assms, of "on_int closed_fun"]
      g_terms_floats [OF _ assms, of "on_int open_fun"]
    by simp
qed

theorem coefficients_are_floats_witness:
  "(1::nat) \<le> 2 \<and> (1, 1, 0, 0) \<in> set (lattice 2)
   \<and> g_terms (on_int closed_fun) 2 (1, 1, 0, 0) \<noteq> []
   \<and> list_all (\<lambda>(mono, co). is_float co) (g_terms (on_int closed_fun) 2 (1, 1, 0, 0))
   \<and> list_all (\<lambda>(mono, co). is_float co) (g_terms (on_int open_fun) 2 (1, 1, 0, 0))"
proof -
  have h: "(1::nat) \<le> 2" "(1, 1, 0, 0) \<in> set (lattice 2)"
    by (simp_all add: lattice_def eval_nat_numeral)
  from coefficients_are_floats [OF h] h show ?thesis
    by blast
qed

text \<open>As the claim is written, with exact rational coefficients, it fails
  already for \<open>NewtonCotesClosed(1)\<close> at the lattice index \<open>(1, 0, 0, 0)\<close>: the
  terms of \<open>g = (t[0] - 0.0) / (1.0 - 0.0)\<close> have float coefficients.\<close>

theorem closed_1_coefficients_counterexample:
  "(1, 0, 0, 0) \<in> set (lattice 1)
   \<and> g_terms (on_int closed_fun) 1 (1, 0, 0, 0) = [((0, 0, 0, 0), PyFloat 0), ((1, 0, 0, 0), PyFloat 1)]
   \<and> is_float (PyFloat 0) \<and> is_float (PyFloat 1)"
  by (simp add: lattice_def get_poly_def lagrange_factor_def terms4_def closed_fun_def
      float_of_def one_pynum_def zero_pynum_def)


end
